theory Spec2Isabelle
  imports Main
begin

section \<open>DOM token lists\<close>

text \<open>
  An element's \<^verbatim>\<open>classList\<close> is an ordered set of tokens. \<^verbatim>\<open>add\<close> appends a token that
  is not yet there, \<^verbatim>\<open>remove\<close> deletes it, \<^verbatim>\<open>toggle\<close> removes a token that is there and
  adds one that is not.
\<close>

definition classList_add :: "string \<Rightarrow> string list \<Rightarrow> string list" where
  "classList_add c cs = (if c \<in> set cs then cs else cs @ [c])"

definition classList_remove :: "string \<Rightarrow> string list \<Rightarrow> string list" where
  "classList_remove c cs = filter (\<lambda>x. x \<noteq> c) cs"

definition classList_toggle :: "string \<Rightarrow> string list \<Rightarrow> string list" where
  "classList_toggle c cs = (if c \<in> set cs then classList_remove c cs else cs @ [c])"

definition classList_contains :: "string \<Rightarrow> string list \<Rightarrow> bool" where
  "classList_contains c cs = (c \<in> set cs)"

section \<open>JavaScript values and failures\<close>

text \<open>
  An attribute or \<^verbatim>\<open>dataset\<close> entry is a \<open>string option\<close>: \<open>None\<close> is the \<^verbatim>\<open>null\<close> of
  \<^verbatim>\<open>getAttribute\<close> and the \<^verbatim>\<open>undefined\<close> of \<^verbatim>\<open>dataset\<close>. Both are falsy, and so is the
  empty string. Assigning \<^verbatim>\<open>undefined\<close> to a string attribute stores the text
  \<^verbatim>\<open>undefined\<close>.
\<close>

datatype js_error = TypeError | SyntaxError

definition js_truthy :: "string option \<Rightarrow> bool" where
  "js_truthy v = (case v of None \<Rightarrow> False | Some s \<Rightarrow> s \<noteq> [])"

definition js_string :: "string option \<Rightarrow> string" where
  "js_string v = (case v of None \<Rightarrow> ''undefined'' | Some s \<Rightarrow> s)"

text \<open>\<^verbatim>\<open>a || d\<close> for an attribute \<^verbatim>\<open>a\<close> and a string literal \<^verbatim>\<open>d\<close>.\<close>

definition or_default :: "string option \<Rightarrow> string \<Rightarrow> string" where
  "or_default a d = (if js_truthy a then js_string a else d)"

text \<open>\<^verbatim>\<open>s.split(',')\<close>.\<close>

fun split_comma :: "string \<Rightarrow> string list" where
  "split_comma [] = [[]]"
| "split_comma (c # cs) =
     (if c = CHR '','' then [] # split_comma cs
      else (case split_comma cs of [] \<Rightarrow> [[c]] | x # xs \<Rightarrow> (c # x) # xs))"

section \<open>Lazy loading of images (index.js, lines 11-44)\<close>

text \<open>
  The four attributes of an \<^verbatim>\<open>img\<close> element the loader touches. The images of the page
  are a list; an image is identified by its position.
\<close>

record img =
  src :: "string option"
  srcset :: "string option"
  data_src :: "string option"
  data_srcset :: "string option"

text \<open>Lines 19-24, and again lines 36-41: the deferred source is swapped in.\<close>

definition swap_in_source :: "img \<Rightarrow> img" where
  "swap_in_source i =
     (let i1 = i\<lparr>src := Some (js_string (data_src i))\<rparr>;
          i2 = (if js_truthy (data_srcset i1)
                then i1\<lparr>srcset := Some (js_string (data_srcset i1))\<rparr> else i1)
      in i2\<lparr>data_src := None, data_srcset := None\<rparr>)"

text \<open>
  The images and the targets the intersection observer watches.
\<close>

record lazy_state =
  lazy_imgs :: "img list"
  lazy_observed :: "nat list"

text \<open>\<^verbatim>\<open>document.querySelectorAll('img[data-src]')\<close>, as positions.\<close>

definition lazyImages :: "img list \<Rightarrow> nat list" where
  "lazyImages imgs = filter (\<lambda>k. data_src (imgs ! k) \<noteq> None) [0..<length imgs]"

text \<open>
  The observer's callback (lines 15-28) on one entry, a target and its
  \<^verbatim>\<open>isIntersecting\<close> flag, and on a batch of entries.
\<close>

definition entry_step :: "lazy_state \<Rightarrow> nat \<times> bool \<Rightarrow> lazy_state" where
  "entry_step st e =
     (case e of (target, isIntersecting) \<Rightarrow>
        if isIntersecting
        then st\<lparr>lazy_imgs := (lazy_imgs st)[target := swap_in_source (lazy_imgs st ! target)],
                lazy_observed := removeAll target (lazy_observed st)\<rparr>
        else st)"

definition imageObserver_callback :: "lazy_state \<Rightarrow> (nat \<times> bool) list \<Rightarrow> lazy_state" where
  "imageObserver_callback st entries = foldl entry_step st entries"

definition lazyLoadImages :: "bool \<Rightarrow> img list \<Rightarrow> lazy_state" where
  "lazyLoadImages hasIntersectionObserver imgs =
     (if hasIntersectionObserver
      then \<lparr>lazy_imgs = imgs, lazy_observed = lazyImages imgs\<rparr>
      else \<lparr>lazy_imgs = map (\<lambda>i. if data_src i \<noteq> None then swap_in_source i else i) imgs,
             lazy_observed = []\<rparr>)"

text \<open>
  The browser's side of the observer: it calls the callback with batches of entries. An
  entry is made for a target that is observed when the batch is delivered. A batch may
  hold several entries for one target.
\<close>

definition batch_ok :: "lazy_state \<Rightarrow> (nat \<times> bool) list \<Rightarrow> bool" where
  "batch_ok st b = list_all (\<lambda>e. fst e \<in> set (lazy_observed st)) b"

fun deliver :: "lazy_state \<Rightarrow> (nat \<times> bool) list list \<Rightarrow> lazy_state" where
  "deliver st [] = st"
| "deliver st (b # bs) = deliver (imageObserver_callback st b) bs"

fun deliveries_ok :: "lazy_state \<Rightarrow> (nat \<times> bool) list list \<Rightarrow> bool" where
  "deliveries_ok st [] = True"
| "deliveries_ok st (b # bs) = (batch_ok st b \<and> deliveries_ok (imageObserver_callback st b) bs)"

text \<open>How many entries of the batches report the image at \<open>k\<close> as intersecting.\<close>

definition reports :: "(nat \<times> bool) list list \<Rightarrow> nat \<Rightarrow> nat" where
  "reports bs k = length (filter (\<lambda>e. e = (k, True)) (concat bs))"

text \<open>
  An image is resolved: its live source is the deferred one it had, both markers are
  gone, and its live source set is the deferred one when that was not empty.
\<close>

definition resolved :: "img \<Rightarrow> img \<Rightarrow> bool" where
  "resolved before after =
     (src after = data_src before \<and> data_src after = None \<and> data_srcset after = None \<and>
      srcset after =
        (if js_truthy (data_srcset before) then data_srcset before else srcset before))"

text \<open>
  A page of three images: two with a deferred source, the first of them with an empty
  deferred source set and a live one, the third with no marker.
\<close>

definition gallery :: "img list" where
  "gallery =
     [\<lparr>src = None, srcset = Some ''small.jpg 1x'', data_src = Some ''a.jpg'',
        data_srcset = Some ''''\<rparr>,
      \<lparr>src = None, srcset = None, data_src = Some ''b.jpg'',
        data_srcset = Some ''b2.jpg 2x''\<rparr>,
      \<lparr>src = Some ''logo.png'', srcset = None, data_src = None, data_srcset = None\<rparr>]"

section \<open>The scroll-to-top control (index.js, lines 128-140)\<close>

text \<open>
  What the body of the debounced scroll handler reads and writes: the two scroll offsets
  of \<^verbatim>\<open>window.pageYOffset || document.documentElement.scrollTop\<close> (CSS pixels), and the
  class list of the element with id \<^verbatim>\<open>scroll-top\<close>, \<open>None\<close> when the page has no such
  element.
\<close>

record scroll_view =
  pageYOffset :: int
  docScrollTop :: int
  scrollTopButton :: "string list option"

text \<open>\<^verbatim>\<open>a || b\<close> on numbers: \<^verbatim>\<open>a\<close> unless it is 0.\<close>

definition recorded_scrollTop :: "scroll_view \<Rightarrow> int" where
  "recorded_scrollTop v = (if pageYOffset v \<noteq> 0 then pageYOffset v else docScrollTop v)"

definition handleScroll_body :: "scroll_view \<Rightarrow> scroll_view" where
  "handleScroll_body v =
     (let scrollTop = recorded_scrollTop v in
      case scrollTopButton v of
        None \<Rightarrow> v
      | Some cs \<Rightarrow>
          if scrollTop > 100
          then v\<lparr>scrollTopButton := Some (classList_add ''active'' cs)\<rparr>
          else v\<lparr>scrollTopButton := Some (classList_remove ''active'' cs)\<rparr>)"

section \<open>Debounce and the window's load handler (index.js, lines 119-140, 351-366)\<close>

text \<open>
  The window, with a clock in milliseconds and the browser's table of pending timeouts:
  each has the handle \<^verbatim>\<open>setTimeout\<close> returned for it, its deadline and its callback, and
  any number can be pending. \<open>timeout\<close> is the variable of that name in the closure of
  \<^verbatim>\<open>debounce\<close>: undefined, or the handle of the timeout set last. \<open>invoked_at\<close> and
  \<open>ran_at\<close> record when the debounced function was called and when a callback ran,
  latest first.
\<close>

record window =
  clock :: nat
  next_timer :: nat
  timers :: "(nat \<times> nat \<times> (scroll_view \<Rightarrow> scroll_view)) list"
  timeout :: "nat option"
  view :: scroll_view
  scroll_listener :: bool
  preloader :: bool
  window_console :: "string list"
  invoked_at :: "nat list"
  ran_at :: "nat list"

text \<open>
  \<^verbatim>\<open>clearTimeout(h)\<close> removes the timeout with the handle \<open>h\<close> from the table, and does
  nothing for \<^verbatim>\<open>undefined\<close> or a handle that is not pending. \<^verbatim>\<open>setTimeout\<close> adds a timeout
  to the table and returns a new handle.
\<close>

definition clearTimeout :: "nat option \<Rightarrow> window \<Rightarrow> window" where
  "clearTimeout h w =
     (case h of None \<Rightarrow> w | Some i \<Rightarrow> w\<lparr>timers := filter (\<lambda>x. fst x \<noteq> i) (timers w)\<rparr>)"

definition setTimeout :: "(scroll_view \<Rightarrow> scroll_view) \<Rightarrow> nat \<Rightarrow> window \<Rightarrow> nat \<times> window" where
  "setTimeout callback delay w =
     (next_timer w,
      w\<lparr>timers := timers w @ [(next_timer w, clock w + delay, callback)],
        next_timer := Suc (next_timer w)\<rparr>)"

text \<open>The function that \<^verbatim>\<open>debounce(func, delay)\<close> returns (lines 121-125).\<close>

definition debounce :: "(scroll_view \<Rightarrow> scroll_view) \<Rightarrow> nat \<Rightarrow> window \<Rightarrow> window" where
  "debounce func delay w =
     (let w1 = clearTimeout (timeout w) w
      in case setTimeout func delay w1 of
           (h, w2) \<Rightarrow> w2\<lparr>timeout := Some h, invoked_at := clock w2 # invoked_at w2\<rparr>)"

definition handleScroll :: "window \<Rightarrow> window" where
  "handleScroll = debounce handleScroll_body 100"

text \<open>
  The browser's timers: \<open>d\<close> milliseconds pass with no event. Every pending timeout whose
  deadline is reached leaves the table and runs its callback, at its deadline, the
  earlier deadline first.
\<close>

definition run_timer :: "window \<Rightarrow> nat \<times> nat \<times> (scroll_view \<Rightarrow> scroll_view) \<Rightarrow> window" where
  "run_timer w x =
     (case x of (h, deadline, callback) \<Rightarrow>
        w\<lparr>view := callback (view w), ran_at := deadline # ran_at w\<rparr>)"

definition elapse :: "nat \<Rightarrow> window \<Rightarrow> window" where
  "elapse d w =
     (let t = clock w + d;
          due = filter (\<lambda>x. fst (snd x) \<le> t) (timers w);
          later = filter (\<lambda>x. \<not> fst (snd x) \<le> t) (timers w)
      in foldl run_timer (w\<lparr>clock := t, timers := later\<rparr>) (sort_key (\<lambda>x. fst (snd x)) due))"

text \<open>A scroll event: the page is at offset \<open>y\<close> and the listeners of the event run.\<close>

definition scroll_event :: "int \<Rightarrow> window \<Rightarrow> window" where
  "scroll_event y w =
     (let w1 = w\<lparr>view := (view w)\<lparr>pageYOffset := y, docScrollTop := y\<rparr>\<rparr>
      in if scroll_listener w1 then handleScroll w1 else w1)"

definition removeUnusedCSS :: "window \<Rightarrow> window" where
  "removeUnusedCSS w =
     w\<lparr>window_console := window_console w
          @ [''Concept: Unused CSS removal is best handled by build tools.'']\<rparr>"

definition window_load :: "window \<Rightarrow> window" where
  "window_load w =
     (let w1 = w\<lparr>window_console := window_console w
                   @ [''Window Loaded: Finalizing optimizations...'']\<rparr>;
          w2 = removeUnusedCSS w1;
          w3 = w2\<lparr>scroll_listener := True\<rparr>;
          w4 = handleScroll w3
      in w4\<lparr>preloader := False\<rparr>)"

datatype window_event = Scroll int | Elapse nat

fun window_step :: "window \<Rightarrow> window_event \<Rightarrow> window" where
  "window_step w (Scroll y) = scroll_event y w"
| "window_step w (Elapse d) = elapse d w"

definition window_run :: "window \<Rightarrow> window_event list \<Rightarrow> window" where
  "window_run w evs = foldl window_step w evs"

text \<open>
  A run of the callback comes \<open>delay\<close> milliseconds after a call of the debounced
  function, with no call strictly between the two.
\<close>

definition quiet_run :: "nat \<Rightarrow> nat list \<Rightarrow> nat \<Rightarrow> bool" where
  "quiet_run delay invoked r =
     list_ex (\<lambda>c. r = c + delay \<and> list_all (\<lambda>c'. \<not> (c < c' \<and> c' < r)) invoked) invoked"

text \<open>
  What holds of the window after the load handler and any events: the recorded times are
  not in the future; at most one timeout is pending, and it is the one the closure holds
  the handle of, set by the latest call and still to come; every run was a quiet run, and
  no two runs are at the same time.
\<close>

definition debounce_inv :: "nat \<Rightarrow> window \<Rightarrow> bool" where
  "debounce_inv delay w =
     ((\<forall>c \<in> set (invoked_at w). c \<le> clock w) \<and>
      (\<forall>r \<in> set (ran_at w). r \<le> clock w) \<and>
      (timers w = [] \<longrightarrow> length (ran_at w) \<le> length (invoked_at w)) \<and>
      (\<forall>x \<in> set (timers w).
           timers w = [x] \<and> timeout w = Some (fst x) \<and>
           invoked_at w \<noteq> [] \<and> fst (snd x) = hd (invoked_at w) + delay \<and>
           (\<forall>c \<in> set (invoked_at w). c \<le> hd (invoked_at w)) \<and>
           clock w < fst (snd x) \<and> Suc (length (ran_at w)) \<le> length (invoked_at w)) \<and>
      list_all (quiet_run delay (invoked_at w)) (ran_at w) \<and>
      distinct (ran_at w))"

text \<open>A window before its load event, with a scroll-to-top control.\<close>

definition fresh_window :: window where
  "fresh_window =
     \<lparr>clock = 0, next_timer = 1, timers = [], timeout = None,
      view = \<lparr>pageYOffset = 0, docScrollTop = 0, scrollTopButton = Some []\<rparr>,
      scroll_listener = False, preloader = True, window_console = [],
      invoked_at = [], ran_at = []\<rparr>"

section \<open>The navigation highlighter (index.js, lines 320-343)\<close>

text \<open>
  A \<^verbatim>\<open>section\<close> element, with its \<^verbatim>\<open>offsetTop\<close> and \<^verbatim>\<open>offsetHeight\<close> in CSS pixels and its
  \<^verbatim>\<open>id\<close> (empty when it has none), and an anchor of \<^verbatim>\<open>#navmenu\<close>, with its \<^verbatim>\<open>href\<close>
  attribute and its classes. Scroll offsets are whole pixels here.
\<close>

record section_elem =
  offsetTop :: int
  offsetHeight :: int
  section_id :: string

record nav_link =
  href :: "string option"
  link_classes :: "string list"

text \<open>The test of line 329.\<close>

definition section_contains :: "int \<Rightarrow> section_elem \<Rightarrow> bool" where
  "section_contains scrollY s =
     (let sectionTop = offsetTop s - 100;
          sectionBottom = sectionTop + offsetHeight s
      in scrollY \<ge> sectionTop \<and> scrollY < sectionBottom)"

text \<open>The first loop, lines 325-332; \<open>None\<close> is \<^verbatim>\<open>null\<close>.\<close>

fun find_current :: "int \<Rightarrow> section_elem list \<Rightarrow> string option \<Rightarrow> string option" where
  "find_current scrollY [] currentActive = currentActive"
| "find_current scrollY (s # ss) currentActive =
     find_current scrollY ss
       (if section_contains scrollY s then Some (section_id s) else currentActive)"

text \<open>
  The second loop, lines 334-339. \<^verbatim>\<open>link.getAttribute('href').substring(1)\<close> throws a
  TypeError on a link with no \<^verbatim>\<open>href\<close>; the loop stops there, and what it did stays.
\<close>

fun mark_links :: "string option \<Rightarrow> nav_link list \<Rightarrow> nav_link list \<times> js_error option" where
  "mark_links currentActive [] = ([], None)"
| "mark_links currentActive (l # ls) =
     (let l1 = l\<lparr>link_classes := classList_remove ''active'' (link_classes l)\<rparr> in
      case href l1 of
        None \<Rightarrow> (l1 # ls, Some TypeError)
      | Some h \<Rightarrow>
          (let l2 = (if Some (drop 1 h) = currentActive
                     then l1\<lparr>link_classes := classList_add ''active'' (link_classes l1)\<rparr>
                     else l1)
           in case mark_links currentActive ls of (ls', e) \<Rightarrow> (l2 # ls', e)))"

definition activateNavmenuLink ::
  "int \<Rightarrow> section_elem list \<Rightarrow> nav_link list \<Rightarrow> nav_link list \<times> js_error option" where
  "activateNavmenuLink scrollY sections navmenuLinks =
     mark_links (find_current scrollY sections None) navmenuLinks"

text \<open>
  The spec's words for the section that wins: the last section, in document order, whose
  span contains the scroll offset.
\<close>

definition last_containing :: "int \<Rightarrow> section_elem list \<Rightarrow> string option" where
  "last_containing scrollY sections =
     (case filter (section_contains scrollY) sections of
        [] \<Rightarrow> None
      | x # xs \<Rightarrow> Some (section_id (last (x # xs))))"

definition is_active :: "nav_link \<Rightarrow> bool" where
  "is_active l = classList_contains ''active'' (link_classes l)"

definition count_active :: "nav_link list \<Rightarrow> nat" where
  "count_active ls = length (filter is_active ls)"

definition link_target :: "nav_link \<Rightarrow> string option" where
  "link_target l = map_option (drop 1) (href l)"

definition targets :: "string option \<Rightarrow> nav_link \<Rightarrow> bool" where
  "targets cur l = (cur \<noteq> None \<and> link_target l = cur)"

text \<open>
  The highlighter runs once when the document is ready and then on every scroll event:
  the links after runs at the scroll offsets \<open>ys\<close>.
\<close>

definition highlighter_runs :: "section_elem list \<Rightarrow> nav_link list \<Rightarrow> int list \<Rightarrow> nav_link list" where
  "highlighter_runs sections links ys =
     foldl (\<lambda>ls y. fst (activateNavmenuLink y sections ls)) links ys"

text \<open>What the second loop does to a link that has an \<^verbatim>\<open>href\<close>.\<close>

definition mark_link :: "string option \<Rightarrow> nav_link \<Rightarrow> nav_link" where
  "mark_link cur l =
     (if targets cur l
      then l\<lparr>link_classes := classList_add ''active'' (classList_remove ''active'' (link_classes l))\<rparr>
      else l\<lparr>link_classes := classList_remove ''active'' (link_classes l)\<rparr>)"

text \<open>
  The spec's example: sections spanning 0 to 300, 300 to 800 and 800 to 1200, and one
  anchor for each.
\<close>

definition three_sections :: "section_elem list" where
  "three_sections =
     [\<lparr>offsetTop = 0, offsetHeight = 300, section_id = ''hero''\<rparr>,
      \<lparr>offsetTop = 300, offsetHeight = 500, section_id = ''about''\<rparr>,
      \<lparr>offsetTop = 800, offsetHeight = 400, section_id = ''contact''\<rparr>]"

definition three_links :: "nav_link list" where
  "three_links =
     [\<lparr>href = Some ''#hero'', link_classes = [''active'']\<rparr>,
      \<lparr>href = Some ''#about'', link_classes = []\<rparr>,
      \<lparr>href = Some ''#contact'', link_classes = [''btn'']\<rparr>]"

section \<open>The document and its ready handler (index.js, lines 79-101, 176-198, 204-345)\<close>

text \<open>
  The globals the script probes with \<^verbatim>\<open>typeof X !== 'undefined'\<close> or \<^verbatim>\<open>'X' in window\<close>.
  All but the first are third-party libraries.
\<close>

datatype capability =
  IntersectionObserver | FontFaceObserver | AOS | Typed | PureCounter | GLightbox | Swiper | Isotope

definition third_party :: "capability list" where
  "third_party = [FontFaceObserver, AOS, Typed, PureCounter, GLightbox, Swiper, Isotope]"

datatype console_method = Console_log | Console_warn | Console_error

text \<open>
  A carousel element: it has no \<^verbatim>\<open>.swiper-config\<close> child, or the child's text is not JSON,
  or it is. The fragment of the address: none, not a valid selector, matching no element,
  or matching an element with this \<^verbatim>\<open>offsetTop\<close>. The calls made into the libraries.
\<close>

datatype swiper_config = No_config_node | Invalid_JSON | Config string

datatype hash_target = No_hash | Invalid_selector | No_match | Target int

datatype widget =
  AOS_init | Typed_init "string list" | PureCounter_init | GLightbox_init | Swiper_init nat string

text \<open>
  An \<^verbatim>\<open>.isotope-layout\<close> element: its three data attributes, and its previous sibling
  element when that matches \<^verbatim>\<open>.isotope-filters\<close>. Elements that contain others are named
  by numbers.
\<close>

record layout_elem =
  data_layout :: "string option"
  data_default_filter :: "string option"
  data_sort :: "string option"
  previous_filters :: "nat option"

text \<open>An Isotope instance: the layout element it was made for, by position, and its options.\<close>

record isotope =
  iso_element :: nat
  layoutMode :: string
  iso_filter :: "string option"
  sortBy :: string

text \<open>An \<^verbatim>\<open>li\<close> element: its classes, its \<^verbatim>\<open>data-filter\<close>, and the elements it is inside.\<close>

record li_elem =
  li_classes :: "string list"
  li_data_filter :: "string option"
  li_ancestors :: "nat list"

record page =
  globals :: "capability list"
  console :: "(console_method \<times> string) list"
  thrown :: "js_error option"
  images :: lazy_state
  font_promise :: bool
  root_classes :: "string list"
  delegation_wired :: bool
  widgets :: "widget list"
  typed_element :: "string option option"
  swiper_elements :: "swiper_config list"
  layouts :: "layout_elem list"
  isotopes :: "isotope list"
  filter_listeners :: "(nat \<times> nat) list"
  lis :: "li_elem list"
  portfolio_filters :: "nat list"
  location_hash :: hash_target
  scrolled_to :: "int option"
  header :: "string list option"
  headerToggle :: "string list option"
  header_wired :: bool
  navmenuLinks :: "nav_link list"
  sections :: "section_elem list"
  scrollY :: int
  nav_wired :: bool

definition defined :: "capability \<Rightarrow> page \<Rightarrow> bool" where
  "defined c p = (c \<in> set (globals p))"

definition console_call :: "console_method \<Rightarrow> string \<Rightarrow> page \<Rightarrow> page" where
  "console_call m msg p = p\<lparr>console := console p @ [(m, msg)]\<rparr>"

definition throw :: "js_error \<Rightarrow> page \<Rightarrow> page" where
  "throw e p = p\<lparr>thrown := Some e\<rparr>"

text \<open>Statements in sequence: an exception ends the handler.\<close>

fun run_steps :: "(page \<Rightarrow> page) list \<Rightarrow> page \<Rightarrow> page" where
  "run_steps [] p = p"
| "run_steps (f # fs) p = (let p' = f p in if thrown p' = None then run_steps fs p' else p')"

subsection \<open>Fonts (lines 79-101)\<close>

definition optimizeFontLoading :: "page \<Rightarrow> page" where
  "optimizeFontLoading p =
     (if defined FontFaceObserver p
      then p\<lparr>font_promise := True\<rparr>
      else console_call Console_warn ''FontFaceObserver not found. Font optimization skipped.'' p)"

text \<open>The promise of the three fonts settles, later: all loaded, or one rejected.\<close>

definition fonts_settled :: "bool \<Rightarrow> page \<Rightarrow> page" where
  "fonts_settled loaded p =
     (if font_promise p
      then (if loaded
            then console_call Console_log ''All fonts loaded''
                   (p\<lparr>font_promise := False,
                      root_classes := classList_add ''fonts-loaded'' (root_classes p)\<rparr>)
            else console_call Console_error ''Error loading fonts:'' (p\<lparr>font_promise := False\<rparr>))
      else p)"

subsection \<open>The widgets (lines 219-296)\<close>

definition call_lazyLoadImages :: "page \<Rightarrow> page" where
  "call_lazyLoadImages p =
     p\<lparr>images := lazyLoadImages (defined IntersectionObserver p) (lazy_imgs (images p))\<rparr>"

definition setupEventDelegation :: "page \<Rightarrow> page" where
  "setupEventDelegation p = p\<lparr>delegation_wired := True\<rparr>"

definition init_AOS :: "page \<Rightarrow> page" where
  "init_AOS p = (if defined AOS p then p\<lparr>widgets := widgets p @ [AOS_init]\<rparr> else p)"

definition init_Typed :: "page \<Rightarrow> page" where
  "init_Typed p =
     (if defined Typed p
      then (case typed_element p of
              None \<Rightarrow> p
            | Some typed_strings \<Rightarrow>
                (case typed_strings of
                   None \<Rightarrow> throw TypeError p
                 | Some s \<Rightarrow> p\<lparr>widgets := widgets p @ [Typed_init (split_comma s)]\<rparr>))
      else p)"

definition init_PureCounter :: "page \<Rightarrow> page" where
  "init_PureCounter p =
     (if defined PureCounter p then p\<lparr>widgets := widgets p @ [PureCounter_init]\<rparr> else p)"

definition init_GLightbox :: "page \<Rightarrow> page" where
  "init_GLightbox p =
     (if defined GLightbox p then p\<lparr>widgets := widgets p @ [GLightbox_init]\<rparr> else p)"

fun swiper_forEach :: "nat \<Rightarrow> swiper_config list \<Rightarrow> page \<Rightarrow> page" where
  "swiper_forEach k [] p = p"
| "swiper_forEach k (c # cs) p =
     (case c of
        No_config_node \<Rightarrow> throw TypeError p
      | Invalid_JSON \<Rightarrow> throw SyntaxError p
      | Config config \<Rightarrow>
          swiper_forEach (Suc k) cs (p\<lparr>widgets := widgets p @ [Swiper_init k config]\<rparr>))"

definition init_Swiper :: "page \<Rightarrow> page" where
  "init_Swiper p = (if defined Swiper p then swiper_forEach 0 (swiper_elements p) p else p)"

text \<open>Lines 268-277: the options of the instance made for the layout element at \<open>k\<close>.\<close>

definition new_Isotope :: "nat \<Rightarrow> layout_elem \<Rightarrow> isotope" where
  "new_Isotope k isotopeItem =
     (let layout = or_default (data_layout isotopeItem) ''masonry'';
          filter = or_default (data_default_filter isotopeItem) ''*'';
          sort = or_default (data_sort isotopeItem) ''original-order''
      in \<lparr>iso_element = k, layoutMode = layout, iso_filter = Some filter, sortBy = sort\<rparr>)"

text \<open>
  Lines 280-294: a click listener on the filter bar, for the pair of the bar and the
  layout element.
\<close>

definition filter_wiring :: "nat \<Rightarrow> layout_elem \<Rightarrow> (nat \<times> nat) list" where
  "filter_wiring k isotopeItem =
     (case previous_filters isotopeItem of None \<Rightarrow> [] | Some filtersElem \<Rightarrow> [(filtersElem, k)])"

definition init_Isotope :: "page \<Rightarrow> page" where
  "init_Isotope p =
     (if defined Isotope p
      then p\<lparr>isotopes := isotopes p
                 @ map (\<lambda>(k, isotopeItem). new_Isotope k isotopeItem) (enumerate 0 (layouts p)),
             filter_listeners := filter_listeners p
                 @ concat (map (\<lambda>(k, isotopeItem). filter_wiring k isotopeItem)
                     (enumerate 0 (layouts p)))\<rparr>
      else p)"

subsection \<open>Hash scroll, header toggle, navigation (lines 298-343)\<close>

definition scroll_to_hash :: "page \<Rightarrow> page" where
  "scroll_to_hash p =
     (case location_hash p of
        No_hash \<Rightarrow> p
      | Invalid_selector \<Rightarrow> throw SyntaxError p
      | No_match \<Rightarrow> p
      | Target offset \<Rightarrow> p\<lparr>scrolled_to := Some offset\<rparr>)"

definition wire_header_toggle :: "page \<Rightarrow> page" where
  "wire_header_toggle p =
     (if headerToggle p \<noteq> None \<and> header p \<noteq> None then p\<lparr>header_wired := True\<rparr> else p)"

text \<open>The listener of lines 313-317, when it has been added.\<close>

definition headerToggle_click :: "page \<Rightarrow> page" where
  "headerToggle_click p =
     (if header_wired p
      then (case (header p, headerToggle p) of
              (Some h, Some t) \<Rightarrow>
                p\<lparr>header := Some (classList_toggle ''header-show'' h),
                  headerToggle :=
                    Some (classList_toggle ''bi-x'' (classList_toggle ''bi-list'' t))\<rparr>
            | _ \<Rightarrow> p)
      else p)"

text \<open>Lines 342-343: the highlighter is registered for scroll events, then called.\<close>

definition wire_navmenu :: "page \<Rightarrow> page" where
  "wire_navmenu p =
     (let p1 = p\<lparr>nav_wired := True\<rparr> in
      case activateNavmenuLink (scrollY p1) (sections p1) (navmenuLinks p1) of
        (links, e) \<Rightarrow> p1\<lparr>navmenuLinks := links, thrown := e\<rparr>)"

subsection \<open>The ready handler (lines 204-345)\<close>

definition DOMContentLoaded :: "page \<Rightarrow> page" where
  "DOMContentLoaded =
     run_steps
       [console_call Console_log ''DOM Content Loaded: Initializing optimizations...'',
        call_lazyLoadImages,
        optimizeFontLoading,
        setupEventDelegation,
        init_AOS,
        init_Typed,
        init_PureCounter,
        init_GLightbox,
        init_Swiper,
        init_Isotope,
        scroll_to_hash,
        wire_header_toggle,
        wire_navmenu]"

text \<open>The part of the handler that uses a capability.\<close>

fun bootstrap :: "capability \<Rightarrow> page \<Rightarrow> page" where
  "bootstrap IntersectionObserver = call_lazyLoadImages"
| "bootstrap FontFaceObserver = optimizeFontLoading"
| "bootstrap AOS = init_AOS"
| "bootstrap Typed = init_Typed"
| "bootstrap PureCounter = init_PureCounter"
| "bootstrap GLightbox = init_GLightbox"
| "bootstrap Swiper = init_Swiper"
| "bootstrap Isotope = init_Isotope"

text \<open>A console entry that reports a failure: a warning or an error.\<close>

definition failure_entry :: "console_method \<times> string \<Rightarrow> bool" where
  "failure_entry e = (fst e \<noteq> Console_log)"

definition failures :: "page \<Rightarrow> (console_method \<times> string) list" where
  "failures p = filter failure_entry (console p)"

subsection \<open>Clicks on filter controls (lines 176-198 and 280-294)\<close>

definition deactivate :: "li_elem \<Rightarrow> li_elem" where
  "deactivate l = l\<lparr>li_classes := classList_remove ''filter-active'' (li_classes l)\<rparr>"

definition activate :: "li_elem \<Rightarrow> li_elem" where
  "activate l = l\<lparr>li_classes := classList_add ''filter-active'' (li_classes l)\<rparr>"

text \<open>\<^verbatim>\<open>iso.arrange({filter: f})\<close> on the instance of the layout element \<open>g\<close>.\<close>

definition arrange_on :: "nat \<Rightarrow> string option \<Rightarrow> isotope list \<Rightarrow> isotope list" where
  "arrange_on g f isos = map (\<lambda>i. if iso_element i = g then i\<lparr>iso_filter := f\<rparr> else i) isos"

text \<open>
  The target of a click in a filter bar: the \<^verbatim>\<open>li\<close> at a position itself, or an element
  inside that \<^verbatim>\<open>li\<close> that is not an \<^verbatim>\<open>li\<close>. \<open>control_of\<close> is the position of the control,
  \<open>matches_li\<close> is \<^verbatim>\<open>event.target.matches('li')\<close>.
\<close>

datatype click_target = Target_li nat | Target_inside nat

fun control_of :: "click_target \<Rightarrow> nat" where
  "control_of (Target_li t) = t"
| "control_of (Target_inside t) = t"

fun matches_li :: "click_target \<Rightarrow> bool" where
  "matches_li (Target_li t) = True"
| "matches_li (Target_inside t) = False"

text \<open>
  The listener on a filter bar (lines 282-293): \<open>filtersElem\<close> is the bar, \<open>g\<close> the layout
  element of \<^verbatim>\<open>initIsotope\<close>. It acts only when the target of the click is an \<^verbatim>\<open>li\<close>.
\<close>

definition filters_click_listener :: "nat \<Rightarrow> nat \<Rightarrow> click_target \<Rightarrow> page \<Rightarrow> page" where
  "filters_click_listener filtersElem g target p =
     (if matches_li target
      then (let t = control_of target;
                p1 = p\<lparr>lis := map (\<lambda>li. if filtersElem \<in> set (li_ancestors li)
                                         then deactivate li else li) (lis p)\<rparr>;
                p2 = p1\<lparr>lis := (lis p1)[t := activate (lis p1 ! t)]\<rparr>
            in p2\<lparr>isotopes := arrange_on g (li_data_filter (lis p2 ! t)) (isotopes p2)\<rparr>)
      else p)"

text \<open>
  \<^verbatim>\<open>matches('.portfolio-filters li')\<close>, for an \<^verbatim>\<open>li\<close> that is inside the elements
  \<open>ancestors\<close>.
\<close>

definition portfolio_li :: "nat list \<Rightarrow> nat list \<Rightarrow> bool" where
  "portfolio_li bars ancestors = list_ex (\<lambda>a. a \<in> set bars) ancestors"

text \<open>
  The delegated listener on the body (lines 177-197). It acts only when the target of the
  click is an \<^verbatim>\<open>li\<close> inside a \<^verbatim>\<open>.portfolio-filters\<close> element. \<^verbatim>\<open>Isotope.data\<close> of the first
  layout element is the instance made for it, if there is one.
\<close>

definition body_click_listener :: "click_target \<Rightarrow> page \<Rightarrow> page" where
  "body_click_listener target p =
     (if matches_li target \<and>
         portfolio_li (portfolio_filters p) (li_ancestors (lis p ! control_of target))
      then (let t = control_of target;
                filterValue = li_data_filter (lis p ! t);
                p1 = p\<lparr>lis := map (\<lambda>filter. if portfolio_li (portfolio_filters p) (li_ancestors filter)
                                           then deactivate filter else filter) (lis p)\<rparr>;
                p2 = p1\<lparr>lis := (lis p1)[t := activate (lis p1 ! t)]\<rparr>
            in if layouts p2 \<noteq> [] \<and> defined Isotope p2
               then p2\<lparr>isotopes := arrange_on 0 filterValue (isotopes p2)\<rparr>
               else p2)
      else p)"

text \<open>
  A click on, or inside, the \<^verbatim>\<open>li\<close> at \<open>t\<close>: the event bubbles through the elements the
  control is inside, innermost first, running the listeners added to each, and reaches the
  body last.
\<close>

definition bubbling :: "nat \<Rightarrow> page \<Rightarrow> (nat \<times> nat) list" where
  "bubbling t p =
     concat (map (\<lambda>a. filter (\<lambda>(filtersElem, g). filtersElem = a) (filter_listeners p))
       (li_ancestors (lis p ! t)))"

definition click :: "click_target \<Rightarrow> page \<Rightarrow> page" where
  "click target p =
     (if control_of target < length (lis p)
      then (let p1 = foldl (\<lambda>q (filtersElem, g). filters_click_listener filtersElem g target q) p
                       (bubbling (control_of target) p)
            in if delegation_wired p1 then body_click_listener target p1 else p1)
      else p)"

text \<open>
  What the listeners of one click come to together: the controls whose ancestors are in
  \<open>S\<close> lose the active class, the target gets it, and the instances of the layout elements
  in \<open>G\<close> are arranged with the target's filter value.
\<close>

definition click_effect :: "nat \<Rightarrow> (nat list \<Rightarrow> bool) \<Rightarrow> (nat \<Rightarrow> bool) \<Rightarrow> page \<Rightarrow> page" where
  "click_effect t S G p =
     p\<lparr>lis := (map (\<lambda>l. if S (li_ancestors l) then deactivate l else l) (lis p))
                 [t := activate (deactivate (lis p ! t))],
       isotopes := map (\<lambda>i. if G (iso_element i) then i\<lparr>iso_filter := li_data_filter (lis p ! t)\<rparr>
                             else i) (isotopes p)\<rparr>"

text \<open>
  Modelled from the spec: Isotope is a third-party library whose code is not in the
  repository. The spec says of \<^verbatim>\<open>arrange\<close> that the grid's visible item set becomes exactly
  the items whose filter attribute matches the filter value, or all items when the value
  is the wildcard. Whether an item matches a value is left to \<open>matches\<close>.
\<close>

definition iso_visible :: "(string \<Rightarrow> 'i \<Rightarrow> bool) \<Rightarrow> 'i list \<Rightarrow> string \<Rightarrow> 'i list" where
  "iso_visible matches items f = (if f = ''*'' then items else filter (matches f) items)"

definition visible_items :: "(string \<Rightarrow> 'i \<Rightarrow> bool) \<Rightarrow> 'i list \<Rightarrow> isotope \<Rightarrow> 'i list option" where
  "visible_items matches items inst = map_option (iso_visible matches items) (iso_filter inst)"

definition is_filter_active :: "li_elem \<Rightarrow> bool" where
  "is_filter_active l = classList_contains ''filter-active'' (li_classes l)"

subsection \<open>A page\<close>

text \<open>
  A page as the document gives it to the script: every library loaded, three images, two
  grids, each after its filter bar (the bars are elements 1 and 2, both of class
  \<^verbatim>\<open>portfolio-filters\<close>), a header with its toggle, three sections and their anchors.
\<close>

definition portfolio_page :: page where
  "portfolio_page =
     \<lparr>globals = [IntersectionObserver, FontFaceObserver, AOS, Typed, PureCounter, GLightbox,
                 Swiper, Isotope],
      console = [], thrown = None,
      images = \<lparr>lazy_imgs = gallery, lazy_observed = []\<rparr>,
      font_promise = False, root_classes = [], delegation_wired = False, widgets = [],
      typed_element = Some (Some ''Designer,Developer''),
      swiper_elements = [Config ''{}''],
      layouts =
        [\<lparr>data_layout = Some ''fitRows'', data_default_filter = Some ''.filter-app'',
           data_sort = None, previous_filters = Some 1\<rparr>,
         \<lparr>data_layout = None, data_default_filter = None, data_sort = Some '''',
           previous_filters = Some 2\<rparr>],
      isotopes = [], filter_listeners = [],
      lis =
        [\<lparr>li_classes = [''filter-active''], li_data_filter = Some ''*'', li_ancestors = [1]\<rparr>,
         \<lparr>li_classes = [], li_data_filter = Some ''.filter-app'', li_ancestors = [1]\<rparr>,
         \<lparr>li_classes = [''filter-active''], li_data_filter = Some ''*'', li_ancestors = [2]\<rparr>,
         \<lparr>li_classes = [], li_data_filter = Some ''.filter-web'', li_ancestors = [2]\<rparr>],
      portfolio_filters = [1, 2],
      location_hash = No_hash, scrolled_to = None,
      header = Some [], headerToggle = Some [''bi-list''], header_wired = False,
      navmenuLinks = three_links, sections = three_sections, scrollY = 350,
      nav_wired = False\<rparr>"

text \<open>
  For a click on the \<^verbatim>\<open>li\<close> at \<open>t\<close>: whether a listener handles it, the controls the
  listeners that run deactivate (by what the controls are inside), and the layout elements
  whose instances they arrange.
\<close>

definition click_handled :: "nat \<Rightarrow> page \<Rightarrow> bool" where
  "click_handled t p =
     (bubbling t p \<noteq> [] \<or>
      (delegation_wired p \<and> portfolio_li (portfolio_filters p) (li_ancestors (lis p ! t))))"

definition click_scope :: "nat \<Rightarrow> page \<Rightarrow> nat list \<Rightarrow> bool" where
  "click_scope t p as =
     (list_ex (\<lambda>x. fst x \<in> set as) (bubbling t p) \<or>
      (delegation_wired p \<and> portfolio_li (portfolio_filters p) (li_ancestors (lis p ! t)) \<and>
       portfolio_li (portfolio_filters p) as))"

definition click_grids :: "nat \<Rightarrow> page \<Rightarrow> nat \<Rightarrow> bool" where
  "click_grids t p e =
     (list_ex (\<lambda>x. snd x = e) (bubbling t p) \<or>
      (delegation_wired p \<and> portfolio_li (portfolio_filters p) (li_ancestors (lis p ! t)) \<and>
       e = 0 \<and> layouts p \<noteq> [] \<and> defined Isotope p))"

section \<open>Token list facts\<close>

lemma classList_add_contains [simp]: "classList_contains c (classList_add c cs)"
  by (simp add: classList_contains_def classList_add_def)

lemma classList_remove_contains [simp]: "\<not> classList_contains c (classList_remove c cs)"
  by (simp add: classList_contains_def classList_remove_def)

lemma classList_add_other [simp]:
  "d \<noteq> c \<Longrightarrow> classList_contains d (classList_add c cs) = classList_contains d cs"
  by (auto simp add: classList_contains_def classList_add_def)

lemma classList_remove_other [simp]:
  "d \<noteq> c \<Longrightarrow> classList_contains d (classList_remove c cs) = classList_contains d cs"
  by (auto simp add: classList_contains_def classList_remove_def)

lemma classList_add_idem [simp]: "classList_add c (classList_add c cs) = classList_add c cs"
  by (simp add: classList_add_def)

lemma classList_remove_idem [simp]:
  "classList_remove c (classList_remove c cs) = classList_remove c cs"
  by (simp add: classList_remove_def)

lemma classList_remove_add [simp]:
  "classList_remove c (classList_add c cs) = classList_remove c cs"
  by (simp add: classList_remove_def classList_add_def)

lemma classList_add_remove_add [simp]:
  "classList_add c (classList_remove c (classList_add c (classList_remove c cs)))
     = classList_add c (classList_remove c cs)"
  by (simp add: classList_remove_def classList_add_def)

section \<open>The scroll-to-top control: results\<close>

text \<open>
  C3. After a run of the debounced scroll handler's body, the scroll-to-top control, when
  the page has one, carries the class \<^verbatim>\<open>active\<close> if and only if the vertical offset read
  in that run exceeds 100 px; a page without the control is left as it was. At scrollY = 50
  the control is inactive and at scrollY = 150 it is active, whatever its classes were
  before.
\<close>

theorem handleScroll_active_iff:
  "(scrollTopButton v = Some cs \<longrightarrow>
      (\<exists>cs'. scrollTopButton (handleScroll_body v) = Some cs' \<and>
         (classList_contains ''active'' cs' \<longleftrightarrow> recorded_scrollTop v > 100)))
   \<and> (scrollTopButton v = None \<longrightarrow> handleScroll_body v = v)
   \<and> (\<exists>cs'. scrollTopButton (handleScroll_body
          \<lparr>pageYOffset = 50, docScrollTop = d, scrollTopButton = Some cs0\<rparr>) = Some cs'
         \<and> \<not> classList_contains ''active'' cs')
   \<and> (\<exists>cs'. scrollTopButton (handleScroll_body
          \<lparr>pageYOffset = 150, docScrollTop = d, scrollTopButton = Some cs0\<rparr>) = Some cs'
         \<and> classList_contains ''active'' cs')"
  by (simp add: handleScroll_body_def Let_def recorded_scrollTop_def)

theorem handleScroll_active_iff_witness:
  "scrollTopButton \<lparr>pageYOffset = 0, docScrollTop = 240, scrollTopButton = Some [''btn'']\<rparr>
     = Some [''btn'']
   \<and> scrollTopButton (handleScroll_body
        \<lparr>pageYOffset = 0, docScrollTop = 240, scrollTopButton = Some [''btn'']\<rparr>)
     = Some [''btn'', ''active'']
   \<and> recorded_scrollTop \<lparr>pageYOffset = 0, docScrollTop = 240, scrollTopButton = Some [''btn'']\<rparr>
     > 100
   \<and> scrollTopButton \<lparr>pageYOffset = 150, docScrollTop = 150, scrollTopButton = None\<rparr> = None
   \<and> handleScroll_body \<lparr>pageYOffset = 150, docScrollTop = 150, scrollTopButton = None\<rparr>
     = \<lparr>pageYOffset = 150, docScrollTop = 150, scrollTopButton = None\<rparr>"
proof -
  note T = handleScroll_active_iff
    [of "\<lparr>pageYOffset = 0, docScrollTop = 240, scrollTopButton = Some [''btn'']\<rparr>" "[''btn'']"]
  note U = handleScroll_active_iff
    [of "\<lparr>pageYOffset = 150, docScrollTop = 150, scrollTopButton = None\<rparr>"]
  have n: "scrollTopButton \<lparr>pageYOffset = 150, docScrollTop = 150, scrollTopButton = None\<rparr>
      = None"
    by simp
  have u: "handleScroll_body \<lparr>pageYOffset = 150, docScrollTop = 150, scrollTopButton = None\<rparr>
     = \<lparr>pageYOffset = 150, docScrollTop = 150, scrollTopButton = None\<rparr>"
    using U n by blast
  show ?thesis
    using T u
    by (simp add: handleScroll_body_def Let_def recorded_scrollTop_def classList_add_def)
qed

section \<open>Lazy loading of images: results\<close>

lemma swap_in_source_fields:
  "src (swap_in_source i) = Some (js_string (data_src i))"
  "data_src (swap_in_source i) = None"
  "data_srcset (swap_in_source i) = None"
  "srcset (swap_in_source i) = (if js_truthy (data_srcset i) then data_srcset i else srcset i)"
  by (auto simp add: swap_in_source_def Let_def js_truthy_def js_string_def split: option.splits)

lemma resolved_swap: "data_src i \<noteq> None \<Longrightarrow> resolved i (swap_in_source i)"
  by (auto simp add: resolved_def swap_in_source_fields js_string_def)

lemma lazy_fallback_nth:
  "k < length imgs \<Longrightarrow>
   lazy_imgs (lazyLoadImages False imgs) ! k =
     (if data_src (imgs ! k) \<noteq> None then swap_in_source (imgs ! k) else imgs ! k)"
  by (simp add: lazyLoadImages_def)

text \<open>One entry touches only the image it is for, and only when it reports an intersection.\<close>

lemma entry_step_length: "length (lazy_imgs (entry_step st e)) = length (lazy_imgs st)"
  by (cases e) (simp add: entry_step_def)

lemma entry_step_nth:
  "k < length (lazy_imgs st) \<Longrightarrow>
   lazy_imgs (entry_step st e) ! k =
     (if e = (k, True) then swap_in_source (lazy_imgs st ! k) else lazy_imgs st ! k)"
  by (cases e) (auto simp add: entry_step_def nth_list_update)

lemma entry_step_observed:
  "k \<in> set (lazy_observed (entry_step st e)) \<longleftrightarrow> k \<in> set (lazy_observed st) \<and> e \<noteq> (k, True)"
  by (cases e) (auto simp add: entry_step_def)

lemma callback_length:
  "length (lazy_imgs (foldl entry_step st b)) = length (lazy_imgs st)"
  by (induction b arbitrary: st) (simp_all add: entry_step_length)

lemma callback_nth:
  "k < length (lazy_imgs st) \<Longrightarrow>
   lazy_imgs (foldl entry_step st b) ! k =
     (swap_in_source ^^ length (filter (\<lambda>e. e = (k, True)) b)) (lazy_imgs st ! k)"
proof (induction b arbitrary: st)
  case Nil
  then show ?case by simp
next
  case (Cons e b)
  have k: "k < length (lazy_imgs (entry_step st e))"
    using Cons.prems by (simp add: entry_step_length)
  show ?case
    using Cons.IH[OF k] Cons.prems by (simp add: entry_step_nth funpow_swap1)
qed

lemma callback_observed:
  "k \<in> set (lazy_observed (foldl entry_step st b)) \<longleftrightarrow>
     k \<in> set (lazy_observed st) \<and> filter (\<lambda>e. e = (k, True)) b = []"
  by (induction b arbitrary: st) (auto simp add: entry_step_observed)

lemma reports_Nil [simp]: "reports [] k = 0"
  by (simp add: reports_def)

lemma reports_Cons:
  "reports (b # bs) k = length (filter (\<lambda>e. e = (k, True)) b) + reports bs k"
  by (simp add: reports_def)

lemma deliver_length: "length (lazy_imgs (deliver st bs)) = length (lazy_imgs st)"
  by (induction bs arbitrary: st) (simp_all add: imageObserver_callback_def callback_length)

text \<open>
  After any batches, an image has had its source swapped in once for every entry that
  reported it as intersecting, and it is observed when it was and no entry has.
\<close>

lemma deliver_nth:
  "k < length (lazy_imgs st) \<Longrightarrow>
   lazy_imgs (deliver st bs) ! k = (swap_in_source ^^ reports bs k) (lazy_imgs st ! k)"
proof (induction bs arbitrary: st)
  case Nil
  then show ?case by simp
next
  case (Cons b bs)
  have k: "k < length (lazy_imgs (imageObserver_callback st b))"
    using Cons.prems by (simp add: imageObserver_callback_def callback_length)
  have "lazy_imgs (deliver st (b # bs)) ! k =
          (swap_in_source ^^ reports bs k) (lazy_imgs (imageObserver_callback st b) ! k)"
    using Cons.IH[OF k] by simp
  also have "\<dots> = (swap_in_source ^^ reports bs k)
        ((swap_in_source ^^ length (filter (\<lambda>e. e = (k, True)) b)) (lazy_imgs st ! k))"
    using Cons.prems by (simp add: imageObserver_callback_def callback_nth)
  also have "\<dots> = (swap_in_source ^^ reports (b # bs) k) (lazy_imgs st ! k)"
    by (simp add: reports_Cons funpow_add add.commute)
  finally show ?case .
qed

lemma deliver_observed:
  "k \<in> set (lazy_observed (deliver st bs)) \<longleftrightarrow> k \<in> set (lazy_observed st) \<and> reports bs k = 0"
  by (induction bs arbitrary: st)
     (auto simp add: imageObserver_callback_def callback_observed reports_Cons)

text \<open>Only an image that was observed is reported.\<close>

lemma deliveries_ok_reports:
  "deliveries_ok st bs \<Longrightarrow> 0 < reports bs k \<Longrightarrow> k \<in> set (lazy_observed st)"
proof (induction bs arbitrary: st)
  case Nil
  then show ?case by simp
next
  case (Cons b bs)
  show ?case
  proof (cases "filter (\<lambda>e. e = (k, True)) b = []")
    case True
    then have "0 < reports bs k" using Cons.prems(2) by (simp add: reports_Cons)
    then have "k \<in> set (lazy_observed (imageObserver_callback st b))"
      using Cons.IH Cons.prems(1) by simp
    then show ?thesis by (simp add: imageObserver_callback_def callback_observed)
  next
    case False
    then have "(k, True) \<in> set b" by (auto simp add: filter_empty_conv)
    then show ?thesis
      using Cons.prems(1) by (auto simp add: batch_ok_def list_all_iff)
  qed
qed

lemma lazy_start:
  "lazy_imgs (lazyLoadImages True imgs) = imgs"
  "set (lazy_observed (lazyLoadImages True imgs))
     = {k. k < length imgs \<and> data_src (imgs ! k) \<noteq> None}"
  by (auto simp add: lazyLoadImages_def lazyImages_def)

lemma gallery_run:
  "lazyLoadImages True gallery = \<lparr>lazy_imgs = gallery, lazy_observed = [0, 1]\<rparr>"
  "deliveries_ok (lazyLoadImages True gallery) [[(0, True), (1, False)]]"
  "deliver (lazyLoadImages True gallery) [[(0, True), (1, False)]] =
     \<lparr>lazy_imgs = [\<lparr>src = Some ''a.jpg'', srcset = Some ''small.jpg 1x'', data_src = None, data_srcset = None\<rparr>,
        gallery ! 1, gallery ! 2], lazy_observed = [1]\<rparr>"
    by (simp_all add: gallery_def lazyLoadImages_def lazyImages_def upt_rec batch_ok_def
      imageObserver_callback_def entry_step_def swap_in_source_def js_truthy_def js_string_def)

text \<open>
  A batch that reports the second image of the gallery as intersecting, then not, then
  intersecting again: the callback swaps the source in twice, and the second time the
  marker is gone, so the live source becomes the text \<^verbatim>\<open>undefined\<close>.
\<close>

lemma gallery_reported_twice:
  "deliveries_ok (lazyLoadImages True gallery) [[(1, True), (1, False), (1, True)]]"
  "reports [[(1, True), (1, False), (1, True)]] 1 = 2"
  "src (lazy_imgs (deliver (lazyLoadImages True gallery) [[(1, True), (1, False), (1, True)]]) ! 1)
     = Some ''undefined''"
  by (simp_all add: gallery_def lazyLoadImages_def lazyImages_def upt_rec batch_ok_def reports_def
      imageObserver_callback_def entry_step_def swap_in_source_def js_truthy_def js_string_def)

text \<open>
  C1 (as amended). Without intersection detection, the startup pass swaps the deferred
  source of every image that has the marker into its live source, once, and removes both
  markers; with it, the startup pass changes no image and observes exactly the images that
  have the marker. Then, after any batches of entries given to the observer's callback:
  an image with the marker that has been reported as intersecting exactly once had its
  deferred source swapped in exactly once (its live source is the deferred one, both
  markers are gone), and its live source set is the deferred one when that was not empty
  and is left as it was otherwise; an image that has been reported as intersecting is no
  longer observed; an image with the marker that has not been reported as intersecting is
  as it was, marker included, and is still observed. An image without the marker is not
  changed by the batches the browser delivers, which report observed images only.
\<close>

theorem lazy_images_resolved:
  "(\<forall>k < length imgs.
      lazy_imgs (lazyLoadImages False imgs) ! k =
        (if data_src (imgs ! k) \<noteq> None then swap_in_source (imgs ! k) else imgs ! k) \<and>
      (data_src (imgs ! k) \<noteq> None \<longrightarrow>
         resolved (imgs ! k) (lazy_imgs (lazyLoadImages False imgs) ! k)))
   \<and> lazy_imgs (lazyLoadImages True imgs) = imgs
   \<and> set (lazy_observed (lazyLoadImages True imgs))
        = {k. k < length imgs \<and> data_src (imgs ! k) \<noteq> None}
   \<and> (\<forall>k < length imgs.
        (data_src (imgs ! k) \<noteq> None \<and> reports bs k = 1 \<longrightarrow>
           lazy_imgs (deliver (lazyLoadImages True imgs) bs) ! k = swap_in_source (imgs ! k) \<and>
           resolved (imgs ! k) (lazy_imgs (deliver (lazyLoadImages True imgs) bs) ! k)) \<and>
        (0 < reports bs k \<longrightarrow>
           k \<notin> set (lazy_observed (deliver (lazyLoadImages True imgs) bs))) \<and>
        (data_src (imgs ! k) \<noteq> None \<and> reports bs k = 0 \<longrightarrow>
           lazy_imgs (deliver (lazyLoadImages True imgs) bs) ! k = imgs ! k \<and>
           k \<in> set (lazy_observed (deliver (lazyLoadImages True imgs) bs))) \<and>
        (data_src (imgs ! k) = None \<and> deliveries_ok (lazyLoadImages True imgs) bs \<longrightarrow>
           lazy_imgs (deliver (lazyLoadImages True imgs) bs) ! k = imgs ! k))"
proof (intro conjI allI impI)
  fix k assume "k < length imgs"
  then show "lazy_imgs (lazyLoadImages False imgs) ! k =
        (if data_src (imgs ! k) \<noteq> None then swap_in_source (imgs ! k) else imgs ! k)"
    by (rule lazy_fallback_nth)
next
  fix k assume "k < length imgs" "data_src (imgs ! k) \<noteq> None"
  then show "resolved (imgs ! k) (lazy_imgs (lazyLoadImages False imgs) ! k)"
    by (simp add: lazy_fallback_nth resolved_swap)
next
  show "lazy_imgs (lazyLoadImages True imgs) = imgs"
    by (rule lazy_start)
next
  show "set (lazy_observed (lazyLoadImages True imgs))
        = {k. k < length imgs \<and> data_src (imgs ! k) \<noteq> None}"
    by (rule lazy_start)
next
  fix k
  assume k: "k < length imgs" and m: "data_src (imgs ! k) \<noteq> None \<and> reports bs k = 1"
  have n: "lazy_imgs (deliver (lazyLoadImages True imgs) bs) ! k
             = (swap_in_source ^^ reports bs k) (imgs ! k)"
    using deliver_nth[of k "lazyLoadImages True imgs" bs] k by (simp add: lazy_start)
  show "lazy_imgs (deliver (lazyLoadImages True imgs) bs) ! k = swap_in_source (imgs ! k)"
    using n m by simp
  then show "resolved (imgs ! k) (lazy_imgs (deliver (lazyLoadImages True imgs) bs) ! k)"
    using m by (simp add: resolved_swap)
next
  fix k
  assume "k < length imgs" and "0 < reports bs k"
  then show "k \<notin> set (lazy_observed (deliver (lazyLoadImages True imgs) bs))"
    by (simp add: deliver_observed)
next
  fix k
  assume k: "k < length imgs" and m: "data_src (imgs ! k) \<noteq> None \<and> reports bs k = 0"
  have n: "lazy_imgs (deliver (lazyLoadImages True imgs) bs) ! k
             = (swap_in_source ^^ reports bs k) (imgs ! k)"
    using deliver_nth[of k "lazyLoadImages True imgs" bs] k by (simp add: lazy_start)
  show "lazy_imgs (deliver (lazyLoadImages True imgs) bs) ! k = imgs ! k"
    using n m by simp
  show "k \<in> set (lazy_observed (deliver (lazyLoadImages True imgs) bs))"
    using k m by (simp add: deliver_observed lazy_start)
next
  fix k
  assume k: "k < length imgs"
    and m: "data_src (imgs ! k) = None \<and> deliveries_ok (lazyLoadImages True imgs) bs"
  have n: "lazy_imgs (deliver (lazyLoadImages True imgs) bs) ! k
             = (swap_in_source ^^ reports bs k) (imgs ! k)"
    using deliver_nth[of k "lazyLoadImages True imgs" bs] k by (simp add: lazy_start)
  have "reports bs k = 0"
  proof (rule ccontr)
    assume "reports bs k \<noteq> 0"
    then have "k \<in> set (lazy_observed (lazyLoadImages True imgs))"
      using m deliveries_ok_reports[of "lazyLoadImages True imgs" bs k] by simp
    then show False using m by (simp add: lazy_start)
  qed
  then show "lazy_imgs (deliver (lazyLoadImages True imgs) bs) ! k = imgs ! k"
    using n by simp
qed

theorem lazy_images_resolved_witness:
  "data_src (gallery ! 0) \<noteq> None \<and> reports [[(0, True), (1, False)]] 0 = 1
   \<and> resolved (gallery ! 0)
         (lazy_imgs (deliver (lazyLoadImages True gallery) [[(0, True), (1, False)]]) ! 0)
   \<and> 0 \<notin> set (lazy_observed (deliver (lazyLoadImages True gallery) [[(0, True), (1, False)]]))
   \<and> data_src (gallery ! 1) \<noteq> None \<and> reports [[(0, True), (1, False)]] 1 = 0
   \<and> lazy_imgs (deliver (lazyLoadImages True gallery) [[(0, True), (1, False)]]) ! 1 = gallery ! 1
   \<and> 1 \<in> set (lazy_observed (deliver (lazyLoadImages True gallery) [[(0, True), (1, False)]]))
   \<and> data_src (gallery ! 2) = None
   \<and> deliveries_ok (lazyLoadImages True gallery) [[(0, True), (1, False)]]
   \<and> lazy_imgs (deliver (lazyLoadImages True gallery) [[(0, True), (1, False)]]) ! 2 = gallery ! 2
   \<and> resolved (gallery ! 1) (lazy_imgs (lazyLoadImages False gallery) ! 1)"
proof -
  note T = lazy_images_resolved[of gallery "[[(0, True), (1, False)]]"]
  have ok: "deliveries_ok (lazyLoadImages True gallery) [[(0, True), (1, False)]]"
    by (rule gallery_run)
  have len: "length gallery = 3" by (simp add: gallery_def)
  have d0: "data_src (gallery ! 0) \<noteq> None" and d1: "data_src (gallery ! 1) \<noteq> None"
    and d2: "data_src (gallery ! 2) = None"
    by (simp_all add: gallery_def)
  have i0: "reports [[(0, True), (1, False)]] 0 = 1"
    and i1: "reports [[(0, True), (1, False)]] 1 = 0"
    by (simp_all add: reports_def)
  have p0: "0 < reports [[(0, True), (1, False)]] 0"
    using i0 by simp
  from T have A: "\<forall>k < length gallery.
     (data_src (gallery ! k) \<noteq> None \<and> reports [[(0, True), (1, False)]] k = 1 \<longrightarrow>
        lazy_imgs (deliver (lazyLoadImages True gallery) [[(0, True), (1, False)]]) ! k
          = swap_in_source (gallery ! k) \<and>
        resolved (gallery ! k)
          (lazy_imgs (deliver (lazyLoadImages True gallery) [[(0, True), (1, False)]]) ! k)) \<and>
     (0 < reports [[(0, True), (1, False)]] k \<longrightarrow>
        k \<notin> set (lazy_observed (deliver (lazyLoadImages True gallery) [[(0, True), (1, False)]]))) \<and>
     (data_src (gallery ! k) \<noteq> None \<and> reports [[(0, True), (1, False)]] k = 0 \<longrightarrow>
        lazy_imgs (deliver (lazyLoadImages True gallery) [[(0, True), (1, False)]]) ! k
          = gallery ! k \<and>
        k \<in> set (lazy_observed (deliver (lazyLoadImages True gallery) [[(0, True), (1, False)]]))) \<and>
     (data_src (gallery ! k) = None \<and>
      deliveries_ok (lazyLoadImages True gallery) [[(0, True), (1, False)]] \<longrightarrow>
        lazy_imgs (deliver (lazyLoadImages True gallery) [[(0, True), (1, False)]]) ! k
          = gallery ! k)"
    by blast
  from T have B: "\<forall>k < length gallery. data_src (gallery ! k) \<noteq> None \<longrightarrow>
         resolved (gallery ! k) (lazy_imgs (lazyLoadImages False gallery) ! k)"
    by blast
  have l: "0 < length gallery" "1 < length gallery" "2 < length gallery"
    by (simp_all add: len)
  note a0 = A[rule_format, OF l(1)] and a1 = A[rule_format, OF l(2)]
    and a2 = A[rule_format, OF l(3)] and b1 = B[rule_format, OF l(2)]
  show ?thesis using a0 a1 a2 b1 ok d0 d1 d2 i0 i1 p0 by blast
qed

text \<open>
  With intersection detection, and the second image of the gallery never reported as
  intersecting: its live source is not its deferred source, and it still has the marker.
  The first image is reported; its deferred source set is present and empty, and its live
  source set is still the one it had.
\<close>

theorem lazy_images_counterexample:
  "deliveries_ok (lazyLoadImages True gallery) [[(0, True), (1, False)]]
   \<and> data_src (gallery ! 1) = Some ''b.jpg''
   \<and> src (lazy_imgs (deliver (lazyLoadImages True gallery) [[(0, True), (1, False)]]) ! 1) = None
   \<and> data_src (lazy_imgs (deliver (lazyLoadImages True gallery) [[(0, True), (1, False)]]) ! 1)
       = Some ''b.jpg''
   \<and> data_srcset (gallery ! 0) = Some ''''
   \<and> srcset (gallery ! 0) = Some ''small.jpg 1x''
   \<and> srcset (lazy_imgs (deliver (lazyLoadImages True gallery) [[(0, True), (1, False)]]) ! 0)
       = Some ''small.jpg 1x''"
  by (simp only: gallery_run(2,3)) (simp add: gallery_def)

section \<open>The navigation highlighter: results\<close>

lemma last_containing_Cons:
  "last_containing y (s # ss) =
     (case last_containing y ss of
        Some i \<Rightarrow> Some i
      | None \<Rightarrow> if section_contains y s then Some (section_id s) else None)"
  by (auto simp add: last_containing_def split: list.splits)

lemma find_current_last_containing:
  "find_current y ss cur = (case last_containing y ss of None \<Rightarrow> cur | Some i \<Rightarrow> Some i)"
proof (induction ss arbitrary: cur)
  case Nil
  then show ?case by (simp add: last_containing_def)
next
  case (Cons s ss)
  show ?case
    by (simp add: Cons.IH last_containing_Cons split: option.splits)
qed

lemma find_current_None: "find_current y ss None = last_containing y ss"
  by (simp add: find_current_last_containing split: option.splits)

lemma mark_links_map:
  "list_all (\<lambda>l. href l \<noteq> None) ls \<Longrightarrow> mark_links cur ls = (map (mark_link cur) ls, None)"
proof (induction ls)
  case Nil
  then show ?case by simp
next
  case (Cons l ls)
  then obtain h where h: "href l = Some h" by auto
  have "mark_links cur ls = (map (mark_link cur) ls, None)"
    using Cons by simp
  then show ?case
    using h by (auto simp add: mark_link_def targets_def link_target_def Let_def)
qed

lemma activate_map:
  "list_all (\<lambda>l. href l \<noteq> None) ls \<Longrightarrow>
   activateNavmenuLink y ss ls = (map (mark_link (last_containing y ss)) ls, None)"
  by (simp add: activateNavmenuLink_def find_current_None mark_links_map)

lemma mark_link_href [simp]: "href (mark_link cur l) = href l"
  by (simp add: mark_link_def)

lemma mark_link_active [simp]: "is_active (mark_link cur l) = targets cur l"
  by (simp add: mark_link_def is_active_def)

lemma mark_link_other:
  "c \<noteq> ''active'' \<Longrightarrow>
   classList_contains c (link_classes (mark_link cur l)) = classList_contains c (link_classes l)"
  by (simp add: mark_link_def)

lemma count_active_map:
  "count_active (map (mark_link cur) ls) = length (filter (targets cur) ls)"
  by (simp add: count_active_def filter_map comp_def)

lemma distinct_filter_le_1:
  "distinct (map f xs) \<Longrightarrow> length (filter (\<lambda>x. f x = c) xs) \<le> 1"
proof (induction xs)
  case Nil
  then show ?case by simp
next
  case (Cons x xs)
  show ?case
  proof (cases "f x = c")
    case True
    have "f x \<notin> f ` set xs" using Cons.prems by simp
    then have "\<forall>z \<in> set xs. f z \<noteq> c" using True by blast
    then have "filter (\<lambda>x. f x = c) xs = []"
      by (simp add: filter_empty_conv)
    then show ?thesis using True by simp
  next
    case False
    then show ?thesis using Cons by simp
  qed
qed

lemma targets_le_1:
  "distinct (map link_target ls) \<Longrightarrow> length (filter (targets cur) ls) \<le> 1"
proof (cases cur)
  case None
  then show ?thesis by (simp add: targets_def)
next
  case (Some i)
  assume "distinct (map link_target ls)"
  then have "length (filter (\<lambda>l. link_target l = cur) ls) \<le> 1"
    by (rule distinct_filter_le_1)
  moreover have "filter (targets cur) ls = filter (\<lambda>l. link_target l = cur) ls"
    using Some by (intro filter_cong) (simp_all add: targets_def)
  ultimately show ?thesis by simp
qed

lemma highlighter_runs_snoc:
  "highlighter_runs ss ls (ys @ [y]) = fst (activateNavmenuLink y ss (highlighter_runs ss ls ys))"
  by (simp add: highlighter_runs_def)

lemma highlighter_runs_hrefs:
  "list_all (\<lambda>l. href l \<noteq> None) ls \<Longrightarrow>
   map href (highlighter_runs ss ls ys) = map href ls"
proof (induction ys rule: rev_induct)
  case Nil
  then show ?case by (simp add: highlighter_runs_def)
next
  case (snoc y ys)
  have "list_all (\<lambda>h. h \<noteq> None) (map href (highlighter_runs ss ls ys))"
    using snoc by (simp add: list_all_iff)
  then have "list_all (\<lambda>l. href l \<noteq> None) (highlighter_runs ss ls ys)"
    by (simp add: list_all_iff)
  then show ?case
    using snoc by (simp add: highlighter_runs_snoc activate_map comp_def)
qed

lemma three_example:
  "last_containing 350 three_sections = Some ''about''"
  "activateNavmenuLink 350 three_sections three_links =
     ([\<lparr>href = Some ''#hero'', link_classes = []\<rparr>,
       \<lparr>href = Some ''#about'', link_classes = [''active'']\<rparr>,
       \<lparr>href = Some ''#contact'', link_classes = [''btn'']\<rparr>], None)"
  by (simp_all add: last_containing_def three_sections_def three_links_def section_contains_def
      activateNavmenuLink_def classList_add_def classList_remove_def)

text \<open>
  C2 (as amended). A section's span contains the scroll offset when scrollY is in
  [offsetTop - 100, offsetTop - 100 + height), and the first loop finds the last section,
  in document order, whose span contains it (so of overlapping spans the last wins), or
  nothing when no span does. When every navigation anchor has an \<^verbatim>\<open>href\<close>, one run of the
  highlighter raises no error and marks active exactly the anchors whose \<^verbatim>\<open>href\<close>, without
  its first character, is the id of that section, clearing the mark from all others and
  leaving every other class as it was: as many anchors are active as target that section,
  none when no section contains the offset, exactly one when exactly one anchor targets
  the section found.
\<close>

theorem activateNavmenuLink_marks_current:
  "(section_contains y s \<longleftrightarrow> offsetTop s - 100 \<le> y \<and> y < offsetTop s - 100 + offsetHeight s)
   \<and> find_current y ss None = last_containing y ss
   \<and> (list_all (\<lambda>l. href l \<noteq> None) links \<longrightarrow>
        snd (activateNavmenuLink y ss links) = None \<and>
        length (fst (activateNavmenuLink y ss links)) = length links \<and>
        (\<forall>k < length links.
           href (fst (activateNavmenuLink y ss links) ! k) = href (links ! k) \<and>
           (is_active (fst (activateNavmenuLink y ss links) ! k)
              \<longleftrightarrow> targets (last_containing y ss) (links ! k)) \<and>
           (\<forall>c. c \<noteq> ''active'' \<longrightarrow>
              classList_contains c (link_classes (fst (activateNavmenuLink y ss links) ! k))
                = classList_contains c (link_classes (links ! k)))) \<and>
        count_active (fst (activateNavmenuLink y ss links))
          = length (filter (targets (last_containing y ss)) links))"
  by (simp add: section_contains_def Let_def find_current_None activate_map
      mark_link_other count_active_map)

theorem activateNavmenuLink_marks_current_witness:
  "list_all (\<lambda>l. href l \<noteq> None) three_links
   \<and> last_containing 350 three_sections = Some ''about''
   \<and> snd (activateNavmenuLink 350 three_sections three_links) = None
   \<and> \<not> is_active (fst (activateNavmenuLink 350 three_sections three_links) ! 0)
   \<and> is_active (fst (activateNavmenuLink 350 three_sections three_links) ! 1)
   \<and> \<not> is_active (fst (activateNavmenuLink 350 three_sections three_links) ! 2)
   \<and> targets (last_containing 350 three_sections) (three_links ! 1)
   \<and> ''btn'' \<noteq> ''active''
   \<and> classList_contains ''btn''
        (link_classes (fst (activateNavmenuLink 350 three_sections three_links) ! 2))
   \<and> count_active (fst (activateNavmenuLink 350 three_sections three_links)) = 1"
proof -
  note T = activateNavmenuLink_marks_current[of 350 "three_sections ! 1" three_sections three_links]
  have h: "list_all (\<lambda>l. href l \<noteq> None) three_links"
    by (simp add: three_links_def)
  have s: "snd (activateNavmenuLink 350 three_sections three_links) = None"
    using T h by blast
  have t: "targets (last_containing 350 three_sections) (three_links ! 1)"
    by (simp add: three_example(1) targets_def link_target_def three_links_def)
  show ?thesis
    using h s t
    by (simp add: three_example is_active_def classList_contains_def count_active_def)
qed

text \<open>
  One section spanning 0 to 300, one anchor for it, and the page scrolled to 1000: no
  section contains the offset, and no anchor is active after the run.
\<close>

theorem activateNavmenuLink_exactly_one_counterexample:
  "count_active
     (fst (activateNavmenuLink 1000
        [\<lparr>offsetTop = 0, offsetHeight = 300, section_id = ''home''\<rparr>]
        [\<lparr>href = Some ''#home'', link_classes = [''active'']\<rparr>])) = 0"
  by (simp add: activateNavmenuLink_def section_contains_def count_active_def is_active_def
      classList_contains_def classList_remove_def)

text \<open>
  C6 (as amended). When every navigation anchor has an \<^verbatim>\<open>href\<close> and no two anchors have
  the same target, then after the run at load time and any further runs on scroll events,
  at any scroll offsets, at most one anchor carries the class \<^verbatim>\<open>active\<close>, whatever classes
  the anchors had in the document.
\<close>

theorem navmenu_at_most_one_active:
  assumes "list_all (\<lambda>l. href l \<noteq> None) links"
    and "distinct (map link_target links)"
    and "ys \<noteq> []"
  shows "count_active (highlighter_runs ss links ys) \<le> 1"
proof -
  obtain ys' y where ys: "ys = ys' @ [y]"
    using assms(3) by (cases ys rule: rev_cases) auto
  let ?ls = "highlighter_runs ss links ys'"
  have hrefs: "map href ?ls = map href links"
    using assms(1) by (rule highlighter_runs_hrefs)
  have all: "list_all (\<lambda>l. href l \<noteq> None) ?ls"
  proof -
    have "list_all (\<lambda>h. h \<noteq> None) (map href ?ls)"
      using assms(1) hrefs by (simp add: list_all_iff)
    then show ?thesis by (simp add: list_all_iff)
  qed
  have "map link_target ?ls = map (map_option (drop 1)) (map href ?ls)"
    by (simp add: link_target_def comp_def)
  also have "\<dots> = map link_target links"
    by (simp add: hrefs) (simp add: link_target_def comp_def)
  finally have dist: "distinct (map link_target ?ls)"
    using assms(2) by simp
  have "count_active (highlighter_runs ss links ys)
          = length (filter (targets (last_containing y ss)) ?ls)"
    by (simp add: ys highlighter_runs_snoc activate_map[OF all] count_active_map)
  then show ?thesis
    using targets_le_1[OF dist] by simp
qed

theorem navmenu_at_most_one_active_witness:
  "list_all (\<lambda>l. href l \<noteq> None) three_links
   \<and> distinct (map link_target three_links)
   \<and> [350, 900, 20] \<noteq> ([] :: int list)
   \<and> count_active (highlighter_runs three_sections three_links [350, 900, 20]) \<le> 1
   \<and> count_active (highlighter_runs three_sections three_links [350, 900, 20]) = 1"
proof -
  have h: "list_all (\<lambda>l. href l \<noteq> None) three_links"
    and d: "distinct (map link_target three_links)"
    by (simp_all add: three_links_def link_target_def)
  have n: "[350, 900, 20] \<noteq> ([] :: int list)" by simp
  note T = navmenu_at_most_one_active[OF h d n, of three_sections]
  have "count_active (highlighter_runs three_sections three_links [350, 900, 20]) = 1"
    by (simp add: highlighter_runs_def three_sections_def three_links_def section_contains_def
      activateNavmenuLink_def classList_add_def classList_remove_def count_active_def
      is_active_def classList_contains_def)
  then show ?thesis using T h d n by blast
qed

text \<open>
  Two anchors with the same \<^verbatim>\<open>href\<close>: after the run at load time both are active.
\<close>

theorem navmenu_two_active_counterexample:
  "count_active
     (highlighter_runs
        [\<lparr>offsetTop = 0, offsetHeight = 300, section_id = ''about''\<rparr>]
        [\<lparr>href = Some ''#about'', link_classes = []\<rparr>,
         \<lparr>href = Some ''#about'', link_classes = []\<rparr>] [0]) = 2"
  by (simp add: highlighter_runs_def activateNavmenuLink_def section_contains_def
      count_active_def is_active_def classList_contains_def classList_remove_def
      classList_add_def)

section \<open>Debounce and the load handler: results\<close>

lemma quiet_run_iff:
  "quiet_run delay invoked r \<longleftrightarrow>
     (\<exists>c \<in> set invoked. r = c + delay \<and> (\<forall>c' \<in> set invoked. \<not> (c < c' \<and> c' < r)))"
  by (simp add: quiet_run_def list_ex_iff list_all_iff)

lemma quiet_run_later:
  assumes "quiet_run delay invoked r" and "r \<le> t"
  shows "quiet_run delay (t # invoked) r"
  using assms unfolding quiet_run_iff by auto

text \<open>
  A call of the debounced function takes the timeout whose handle the closure holds out
  of the table and puts a new one in, leaving any other timeout where it is.
\<close>

lemma debounce_fields:
  "timers (debounce f delay w) =
     filter (\<lambda>x. Some (fst x) \<noteq> timeout w) (timers w) @ [(next_timer w, clock w + delay, f)]"
  "timeout (debounce f delay w) = Some (next_timer w)"
  "invoked_at (debounce f delay w) = clock w # invoked_at w"
  "ran_at (debounce f delay w) = ran_at w"
  "clock (debounce f delay w) = clock w"
  "view (debounce f delay w) = view w"
  "scroll_listener (debounce f delay w) = scroll_listener w"
  "next_timer (debounce f delay w) = Suc (next_timer w)"
  by (cases "timeout w"; simp add: debounce_def clearTimeout_def setTimeout_def Let_def)+

lemma foldl_run_timer_fields:
  "clock (foldl run_timer w xs) = clock w"
  "timers (foldl run_timer w xs) = timers w"
  "timeout (foldl run_timer w xs) = timeout w"
  "invoked_at (foldl run_timer w xs) = invoked_at w"
  "scroll_listener (foldl run_timer w xs) = scroll_listener w"
  by (induction xs arbitrary: w; simp add: run_timer_def split: prod.splits)+

lemma elapse_fields:
  "clock (elapse d w) = clock w + d"
  "timeout (elapse d w) = timeout w"
  "invoked_at (elapse d w) = invoked_at w"
  "scroll_listener (elapse d w) = scroll_listener w"
  by (simp_all add: elapse_def Let_def foldl_run_timer_fields)

lemma elapse_none:
  assumes "timers w = []"
  shows "ran_at (elapse d w) = ran_at w" and "timers (elapse d w) = []"
    and "view (elapse d w) = view w"
  using assms by (simp_all add: elapse_def Let_def)

lemma elapse_due:
  assumes "timers w = [(h, deadline, callback)]" and "deadline \<le> clock w + d"
  shows "ran_at (elapse d w) = deadline # ran_at w" and "timers (elapse d w) = []"
    and "view (elapse d w) = callback (view w)"
  using assms by (simp_all add: elapse_def Let_def run_timer_def)

lemma elapse_later:
  assumes "timers w = [(h, deadline, callback)]" and "\<not> deadline \<le> clock w + d"
  shows "ran_at (elapse d w) = ran_at w" and "timers (elapse d w) = [(h, deadline, callback)]"
    and "view (elapse d w) = view w"
  using assms by (simp_all add: elapse_def Let_def)

lemma debounce_inv_cong:
  "clock w' = clock w \<Longrightarrow> timers w' = timers w \<Longrightarrow> timeout w' = timeout w \<Longrightarrow>
   invoked_at w' = invoked_at w \<Longrightarrow> ran_at w' = ran_at w \<Longrightarrow>
   debounce_inv d w' = debounce_inv d w"
  by (simp add: debounce_inv_def)

lemma debounce_inv_held:
  assumes "debounce_inv delay w"
  shows "filter (\<lambda>x. Some (fst x) \<noteq> timeout w) (timers w) = []"
proof (cases "timers w")
  case Nil
  then show ?thesis by simp
next
  case (Cons x xs)
  then have "timers w = [x] \<and> timeout w = Some (fst x)"
    using assms by (simp add: debounce_inv_def)
  then show ?thesis by simp
qed

lemma debounce_inv_length:
  assumes "debounce_inv delay w"
  shows "length (ran_at w) \<le> length (invoked_at w)" and "length (timers w) \<le> 1"
proof -
  show "length (ran_at w) \<le> length (invoked_at w)"
  proof (cases "timers w")
    case Nil
    then show ?thesis using assms by (simp add: debounce_inv_def)
  next
    case (Cons x xs)
    then have "Suc (length (ran_at w)) \<le> length (invoked_at w)"
      using assms by (simp add: debounce_inv_def)
    then show ?thesis by simp
  qed
  show "length (timers w) \<le> 1"
  proof (cases "timers w")
    case Nil
    then show ?thesis by simp
  next
    case (Cons x xs)
    then have "timers w = [x]" using assms by (simp add: debounce_inv_def)
    then show ?thesis by simp
  qed
qed

lemma debounce_inv_debounce:
  assumes "debounce_inv delay w" and "0 < delay"
  shows "debounce_inv delay (debounce f delay w)"
    and "timers (debounce f delay w) = [(next_timer w, clock w + delay, f)]"
proof -
  have le: "\<forall>c \<in> set (invoked_at w). c \<le> clock w" and rl: "\<forall>r \<in> set (ran_at w). r \<le> clock w"
    and q: "list_all (quiet_run delay (invoked_at w)) (ran_at w)" and d: "distinct (ran_at w)"
    using assms(1) by (simp_all add: debounce_inv_def)
  have len: "length (ran_at w) \<le> length (invoked_at w)"
    using assms(1) by (rule debounce_inv_length)
  have q': "list_all (quiet_run delay (clock w # invoked_at w)) (ran_at w)"
    using q rl by (auto simp add: list_all_iff intro: quiet_run_later)
  show t: "timers (debounce f delay w) = [(next_timer w, clock w + delay, f)]"
    by (simp add: debounce_fields debounce_inv_held[OF assms(1)])
  show "debounce_inv delay (debounce f delay w)"
    using le rl q' d len assms(2) by (simp add: debounce_inv_def t debounce_fields(2-8))
qed

lemma debounce_inv_elapse:
  assumes "debounce_inv delay w"
  shows "debounce_inv delay (elapse d w)"
proof (cases "timers w")
  case Nil
  then show ?thesis
    using assms by (auto simp add: debounce_inv_def elapse_fields elapse_none)
next
  case (Cons x xs)
  obtain h deadline callback where x: "x = (h, deadline, callback)" by (cases x)
  have one: "timers w = [(h, deadline, callback)]"
    using assms Cons x by (simp add: debounce_inv_def)
  have le: "\<forall>c \<in> set (invoked_at w). c \<le> clock w" and rl: "\<forall>r \<in> set (ran_at w). r \<le> clock w"
    and q: "list_all (quiet_run delay (invoked_at w)) (ran_at w)" and di: "distinct (ran_at w)"
    using assms by (simp_all add: debounce_inv_def)
  have t: "timeout w = Some h" "invoked_at w \<noteq> []" "deadline = hd (invoked_at w) + delay"
    "\<forall>c \<in> set (invoked_at w). c \<le> hd (invoked_at w)" "clock w < deadline"
    "Suc (length (ran_at w)) \<le> length (invoked_at w)"
    using assms one by (simp_all add: debounce_inv_def)
  show ?thesis
  proof (cases "deadline \<le> clock w + d")
    case False
    note e = elapse_later[OF one False]
    show ?thesis
      using le rl q di t False by (auto simp add: debounce_inv_def elapse_fields e)
  next
    case True
    note e = elapse_due[OF one True]
    have qd: "quiet_run delay (invoked_at w) deadline"
      unfolding quiet_run_iff using t by (intro bexI[of _ "hd (invoked_at w)"]) auto
    have fresh: "deadline \<notin> set (ran_at w)"
      using rl t(5) by auto
    show ?thesis
      using le rl q di t True qd fresh
      by (auto simp add: debounce_inv_def elapse_fields e)
  qed
qed

lemma scroll_event_fields:
  assumes "scroll_listener w"
  shows "timers (scroll_event y w) =
           filter (\<lambda>x. Some (fst x) \<noteq> timeout w) (timers w)
             @ [(next_timer w, clock w + 100, handleScroll_body)]"
    and "timeout (scroll_event y w) = Some (next_timer w)"
    and "invoked_at (scroll_event y w) = clock w # invoked_at w"
    and "ran_at (scroll_event y w) = ran_at w"
    and "clock (scroll_event y w) = clock w"
    and "view (scroll_event y w) = (view w)\<lparr>pageYOffset := y, docScrollTop := y\<rparr>"
    and "scroll_listener (scroll_event y w)"
  using assms by (simp_all add: scroll_event_def Let_def handleScroll_def debounce_fields)

lemma debounce_inv_scroll:
  assumes "debounce_inv 100 w"
  shows "debounce_inv 100 (scroll_event y w)"
proof -
  have "debounce_inv 100 (w\<lparr>view := (view w)\<lparr>pageYOffset := y, docScrollTop := y\<rparr>\<rparr>)"
    using assms by (simp cong: debounce_inv_cong)
  then show ?thesis
    by (simp add: scroll_event_def Let_def handleScroll_def debounce_inv_debounce(1))
qed

lemma debounce_inv_run:
  "debounce_inv 100 w \<Longrightarrow> debounce_inv 100 (window_run w evs)"
proof (induction evs arbitrary: w)
  case Nil
  then show ?case by (simp add: window_run_def)
next
  case (Cons e evs)
  have "debounce_inv 100 (window_step w e)"
    using Cons.prems by (cases e) (simp_all add: debounce_inv_scroll debounce_inv_elapse)
  then show ?case
    using Cons.IH[of "window_step w e"] by (simp add: window_run_def)
qed

lemma window_load_fields:
  "timers (window_load w) =
     filter (\<lambda>x. Some (fst x) \<noteq> timeout w) (timers w)
       @ [(next_timer w, clock w + 100, handleScroll_body)]"
  "timeout (window_load w) = Some (next_timer w)"
  "invoked_at (window_load w) = clock w # invoked_at w"
  "ran_at (window_load w) = ran_at w"
  "clock (window_load w) = clock w"
  "scroll_listener (window_load w)"
  "\<not> preloader (window_load w)"
  "view (window_load w) = view w"
  "next_timer (window_load w) = Suc (next_timer w)"
  by (simp_all add: window_load_def Let_def handleScroll_def debounce_fields removeUnusedCSS_def)

lemma debounce_inv_load:
  assumes "timers w = []" and "invoked_at w = []" and "ran_at w = []"
  shows "debounce_inv 100 (window_load w)"
  using assms by (simp add: debounce_inv_def window_load_fields)

lemma scroll_listener_run:
  "scroll_listener w \<Longrightarrow> scroll_listener (window_run w evs)"
proof (induction evs arbitrary: w)
  case Nil
  then show ?case by (simp add: window_run_def)
next
  case (Cons e evs)
  have "scroll_listener (window_step w e)"
    using Cons.prems by (cases e) (simp_all add: scroll_event_fields elapse_fields)
  then show ?case
    using Cons.IH[of "window_step w e"] by (simp add: window_run_def)
qed

lemma fresh_window_run:
  "invoked_at (window_run (window_load fresh_window)
      [Scroll 150, Elapse 40, Scroll 200, Elapse 100, Elapse 500, Scroll 30, Elapse 99])
     = [640, 40, 0, 0]"
  "ran_at (window_run (window_load fresh_window)
      [Scroll 150, Elapse 40, Scroll 200, Elapse 100, Elapse 500, Scroll 30, Elapse 99])
     = [140]"
  "scrollTopButton (view (window_run (window_load fresh_window)
      [Scroll 150, Elapse 40, Scroll 200, Elapse 100, Elapse 500, Scroll 30, Elapse 99]))
     = Some [''active'']"
  "clock (window_run (window_load fresh_window)
      [Scroll 150, Elapse 40, Scroll 200, Elapse 100, Elapse 500, Scroll 30, Elapse 99])
     = 739"
  "map fst (timers (window_run (window_load fresh_window)
      [Scroll 150, Elapse 40, Scroll 200, Elapse 100, Elapse 500, Scroll 30, Elapse 99]))
     = [4]"
  by (simp_all add: window_run_def window_load_def scroll_event_def elapse_def handleScroll_def
      debounce_def clearTimeout_def setTimeout_def run_timer_def Let_def fresh_window_def
      handleScroll_body_def recorded_scrollTop_def classList_add_def removeUnusedCSS_def)

text \<open>
  C4. The load handler registers the debounced handler for scroll events and calls it once
  itself. Every call of the debounced handler, at load and on each scroll event, takes the
  timeout it set before out of the browser's table of pending timeouts and sets a new one
  100 ms ahead, and does not run the effect itself. After the load handler and any
  sequence of scroll events and pauses: at most one timeout is pending; every run of the
  effect came exactly 100 ms after a call with no call strictly between the two; no two
  runs are at the same time; and there are no more runs than calls. A further scroll event
  leaves exactly the timeout it sets pending, and the effect does run: left alone for
  100 ms or more after the event it runs once, at 100 ms, on the page as it then is, and no
  timeout is left; left alone for less it has not run and the timeout is still pending.
\<close>

theorem debounced_scroll_handler:
  "(timers w0 = [] \<and> invoked_at w0 = [] \<and> ran_at w0 = [] \<longrightarrow>
      invoked_at (window_load w0) = [clock w0] \<and>
      ran_at (window_load w0) = [] \<and>
      timers (window_load w0) = [(next_timer w0, clock w0 + 100, handleScroll_body)] \<and>
      scroll_listener (window_run (window_load w0) evs) \<and>
      length (timers (window_run (window_load w0) evs)) \<le> 1 \<and>
      list_all (quiet_run 100 (invoked_at (window_run (window_load w0) evs)))
        (ran_at (window_run (window_load w0) evs)) \<and>
      distinct (ran_at (window_run (window_load w0) evs)) \<and>
      length (ran_at (window_run (window_load w0) evs))
        \<le> length (invoked_at (window_run (window_load w0) evs)) \<and>
      timers (scroll_event y (window_run (window_load w0) evs)) =
        [(next_timer (window_run (window_load w0) evs),
          clock (window_run (window_load w0) evs) + 100, handleScroll_body)] \<and>
      (\<forall>d. d < 100 \<longrightarrow>
         ran_at (elapse d (scroll_event y (window_run (window_load w0) evs)))
           = ran_at (window_run (window_load w0) evs) \<and>
         timers (elapse d (scroll_event y (window_run (window_load w0) evs)))
           = timers (scroll_event y (window_run (window_load w0) evs))) \<and>
      (\<forall>d. 100 \<le> d \<longrightarrow>
         ran_at (elapse d (scroll_event y (window_run (window_load w0) evs)))
           = (clock (window_run (window_load w0) evs) + 100)
               # ran_at (window_run (window_load w0) evs) \<and>
         view (elapse d (scroll_event y (window_run (window_load w0) evs)))
           = handleScroll_body (view (scroll_event y (window_run (window_load w0) evs))) \<and>
         timers (elapse d (scroll_event y (window_run (window_load w0) evs))) = []))
   \<and> (scroll_listener w \<longrightarrow>
        timers (scroll_event y w) =
          filter (\<lambda>x. Some (fst x) \<noteq> timeout w) (timers w)
            @ [(next_timer w, clock w + 100, handleScroll_body)] \<and>
        timeout (scroll_event y w) = Some (next_timer w) \<and>
        invoked_at (scroll_event y w) = clock w # invoked_at w \<and>
        ran_at (scroll_event y w) = ran_at w \<and>
        scrollTopButton (view (scroll_event y w)) = scrollTopButton (view w))"
proof (intro conjI impI)
  assume f: "timers w0 = [] \<and> invoked_at w0 = [] \<and> ran_at w0 = []"
  let ?st = "window_run (window_load w0) evs"
  show "invoked_at (window_load w0) = [clock w0]" "ran_at (window_load w0) = []"
    "timers (window_load w0) = [(next_timer w0, clock w0 + 100, handleScroll_body)]"
    using f by (simp_all add: window_load_fields)
  show l: "scroll_listener ?st"
    by (simp add: scroll_listener_run window_load_fields)
  have inv: "debounce_inv 100 ?st"
    using f by (simp add: debounce_inv_run debounce_inv_load)
  show "list_all (quiet_run 100 (invoked_at ?st)) (ran_at ?st)"
    and "distinct (ran_at ?st)"
    using inv by (simp_all add: debounce_inv_def)
  show "length (ran_at ?st) \<le> length (invoked_at ?st)" and "length (timers ?st) \<le> 1"
    using inv by (rule debounce_inv_length)+
  note s = scroll_event_fields[OF l, of y]
  show t: "timers (scroll_event y ?st) = [(next_timer ?st, clock ?st + 100, handleScroll_body)]"
    by (simp add: s debounce_inv_held[OF inv])
  show "\<forall>d. d < 100 \<longrightarrow>
         ran_at (elapse d (scroll_event y ?st)) = ran_at ?st \<and>
         timers (elapse d (scroll_event y ?st)) = timers (scroll_event y ?st)"
  proof (intro allI impI)
    fix d :: nat assume "d < 100"
    then have n: "\<not> clock ?st + 100 \<le> clock (scroll_event y ?st) + d"
      by (simp add: s)
    show "ran_at (elapse d (scroll_event y ?st)) = ran_at ?st \<and>
         timers (elapse d (scroll_event y ?st)) = timers (scroll_event y ?st)"
      using elapse_later[OF t n] by (simp add: t s)
  qed
  show "\<forall>d. 100 \<le> d \<longrightarrow>
         ran_at (elapse d (scroll_event y ?st)) = (clock ?st + 100) # ran_at ?st \<and>
         view (elapse d (scroll_event y ?st)) = handleScroll_body (view (scroll_event y ?st)) \<and>
         timers (elapse d (scroll_event y ?st)) = []"
  proof (intro allI impI)
    fix d :: nat assume "100 \<le> d"
    then have n: "clock ?st + 100 \<le> clock (scroll_event y ?st) + d"
      by (simp add: s)
    show "ran_at (elapse d (scroll_event y ?st)) = (clock ?st + 100) # ran_at ?st \<and>
         view (elapse d (scroll_event y ?st)) = handleScroll_body (view (scroll_event y ?st)) \<and>
         timers (elapse d (scroll_event y ?st)) = []"
      using elapse_due[OF t n] by (simp add: s)
  qed
next
  assume l: "scroll_listener w"
  note s = scroll_event_fields[OF l, of y]
  show "timers (scroll_event y w) =
          filter (\<lambda>x. Some (fst x) \<noteq> timeout w) (timers w)
            @ [(next_timer w, clock w + 100, handleScroll_body)]"
    "timeout (scroll_event y w) = Some (next_timer w)"
    "invoked_at (scroll_event y w) = clock w # invoked_at w"
    "ran_at (scroll_event y w) = ran_at w"
    "scrollTopButton (view (scroll_event y w)) = scrollTopButton (view w)"
    by (simp_all add: s)
qed

theorem debounced_scroll_handler_witness:
  "timers fresh_window = [] \<and> invoked_at fresh_window = [] \<and> ran_at fresh_window = []
   \<and> scroll_listener (window_load fresh_window)
   \<and> invoked_at (window_load fresh_window) = [0]
   \<and> invoked_at (window_run (window_load fresh_window)
        [Scroll 150, Elapse 40, Scroll 200, Elapse 100, Elapse 500, Scroll 30, Elapse 99])
       = [640, 40, 0, 0]
   \<and> ran_at (window_run (window_load fresh_window)
        [Scroll 150, Elapse 40, Scroll 200, Elapse 100, Elapse 500, Scroll 30, Elapse 99])
       = [140]
   \<and> map fst (timers (window_run (window_load fresh_window)
        [Scroll 150, Elapse 40, Scroll 200, Elapse 100, Elapse 500, Scroll 30, Elapse 99]))
       = [4]
   \<and> list_all (quiet_run 100 [640, 40, 0, 0]) [140]
   \<and> (99::nat) < 100
   \<and> ran_at (elapse 99 (scroll_event 30 (window_run (window_load fresh_window) []))) = []
   \<and> (100::nat) \<le> 100
   \<and> ran_at (elapse 100 (scroll_event 30 (window_run (window_load fresh_window) []))) = [100]
   \<and> timers (scroll_event 30 (window_load fresh_window)) = [(2, 100, handleScroll_body)]"
proof -
  note T = debounced_scroll_handler[of fresh_window
      "[Scroll 150, Elapse 40, Scroll 200, Elapse 100, Elapse 500, Scroll 30, Elapse 99]"
      30 "window_load fresh_window"]
  note U = debounced_scroll_handler[of fresh_window "[]" 30 "window_load fresh_window"]
  have f: "timers fresh_window = [] \<and> invoked_at fresh_window = [] \<and> ran_at fresh_window = []"
    by (simp add: fresh_window_def)
  have l: "scroll_listener (window_load fresh_window)"
    by (simp add: window_load_fields)
  have c: "clock fresh_window = 0" "next_timer fresh_window = 1" "timeout fresh_window = None"
    by (simp_all add: fresh_window_def)
  have r: "window_run (window_load fresh_window) [] = window_load fresh_window"
    by (simp add: window_run_def)
  have q: "list_all (quiet_run 100 [640, 40, 0, 0]) [140]"
    using T f by (simp only: fresh_window_run)
  have a: "ran_at (elapse 99 (scroll_event 30 (window_run (window_load fresh_window) []))) = []"
    and b: "ran_at (elapse 100 (scroll_event 30 (window_run (window_load fresh_window) [])))
              = [100]"
    using U f by (simp_all add: r window_load_fields c)
  have i: "invoked_at (window_load fresh_window) = [0]"
    using T f c by simp
  have t: "timers (scroll_event 30 (window_load fresh_window)) = [(2, 100, handleScroll_body)]"
    using T l f by (simp add: window_load_fields c)
  show ?thesis
    using f l q a b i t by (simp add: fresh_window_run)
qed

section \<open>Grid initialisation: results\<close>

lemma or_default_cases:
  "or_default None d = d" "or_default (Some []) d = d" "v \<noteq> [] \<Longrightarrow> or_default (Some v) d = v"
  by (simp_all add: or_default_def js_truthy_def js_string_def)

lemma iso_element_new [simp]: "iso_element (new_Isotope k el) = k"
  by (simp add: new_Isotope_def)

lemma map_iso_element_enumerate:
  "map iso_element (map (\<lambda>(k, el). new_Isotope k el) (enumerate n els)) = [n..<n + length els]"
proof -
  have "map iso_element (map (\<lambda>(k, el). new_Isotope k el) (enumerate n els))
          = map fst (enumerate n els)"
    by (simp add: comp_def case_prod_beta)
  then show ?thesis by simp
qed

lemma count_upt: "length (filter (\<lambda>j. j = k) [0..<n]) = (if k < n then 1 else 0)"
  by (induction n) auto

lemma count_instances:
  "length (filter (\<lambda>i. iso_element i = k)
      (map (\<lambda>(k, el). new_Isotope k el) (enumerate 0 els))) = (if k < length els then 1 else 0)"
proof -
  have "length (filter (\<lambda>i. iso_element i = k)
           (map (\<lambda>(k, el). new_Isotope k el) (enumerate 0 els)))
        = length (filter (\<lambda>j. j = k)
           (map iso_element (map (\<lambda>(k, el). new_Isotope k el) (enumerate 0 els))))"
    by (simp only: filter_map length_map comp_def)
  also have "\<dots> = length (filter (\<lambda>j. j = k) [0..<length els])"
    by (simp only: map_iso_element_enumerate) simp
  finally show ?thesis by (simp add: count_upt)
qed

text \<open>
  C7. When Isotope is loaded and no instance exists yet, the bootstrap makes one instance
  for each \<^verbatim>\<open>.isotope-layout\<close> element, in document order, and exactly one: as many
  instances as elements, and for every element one instance made for it. The layout,
  filter and sort options of an element's instance are computed from that element's own
  \<^verbatim>\<open>data-layout\<close>, \<^verbatim>\<open>data-default-filter\<close> and \<^verbatim>\<open>data-sort\<close>: a marker that is absent gives
  the default (\<^verbatim>\<open>masonry\<close>, the wildcard \<^verbatim>\<open>*\<close>, \<^verbatim>\<open>original-order\<close>), and so does an empty one;
  a marker with a value gives that value. When Isotope is not loaded, nothing is made.
\<close>

theorem init_Isotope_options:
  "(defined Isotope p \<and> isotopes p = [] \<longrightarrow>
      length (isotopes (init_Isotope p)) = length (layouts p) \<and>
      (\<forall>k < length (layouts p).
          isotopes (init_Isotope p) ! k =
            \<lparr>iso_element = k,
             layoutMode = or_default (data_layout (layouts p ! k)) ''masonry'',
             iso_filter = Some (or_default (data_default_filter (layouts p ! k)) ''*''),
             sortBy = or_default (data_sort (layouts p ! k)) ''original-order''\<rparr>) \<and>
      (\<forall>k. length (filter (\<lambda>i. iso_element i = k) (isotopes (init_Isotope p)))
             = (if k < length (layouts p) then 1 else 0)))
   \<and> (\<not> defined Isotope p \<longrightarrow> init_Isotope p = p)
   \<and> or_default None d = d
   \<and> or_default (Some []) d = d
   \<and> (v \<noteq> [] \<longrightarrow> or_default (Some v) d = v)"
proof (intro conjI impI allI)
  assume a: "defined Isotope p \<and> isotopes p = []"
  have e: "isotopes (init_Isotope p)
             = map (\<lambda>(k, el). new_Isotope k el) (enumerate 0 (layouts p))"
    using a by (simp add: init_Isotope_def)
  show "length (isotopes (init_Isotope p)) = length (layouts p)"
    by (simp add: e)
  show "length (filter (\<lambda>i. iso_element i = k) (isotopes (init_Isotope p)))
          = (if k < length (layouts p) then 1 else 0)" for k
    by (simp only: e count_instances)
  show "isotopes (init_Isotope p) ! k =
            \<lparr>iso_element = k,
             layoutMode = or_default (data_layout (layouts p ! k)) ''masonry'',
             iso_filter = Some (or_default (data_default_filter (layouts p ! k)) ''*''),
             sortBy = or_default (data_sort (layouts p ! k)) ''original-order''\<rparr>"
    if "k < length (layouts p)" for k
    using that by (simp add: e nth_enumerate_eq new_Isotope_def)
next
  assume "\<not> defined Isotope p"
  then show "init_Isotope p = p" by (simp add: init_Isotope_def)
qed (simp_all add: or_default_cases)

theorem init_Isotope_options_witness:
  "defined Isotope portfolio_page \<and> isotopes portfolio_page = []
   \<and> isotopes (init_Isotope portfolio_page) =
       [\<lparr>iso_element = 0, layoutMode = ''fitRows'', iso_filter = Some ''.filter-app'',
         sortBy = ''original-order''\<rparr>,
        \<lparr>iso_element = 1, layoutMode = ''masonry'', iso_filter = Some ''*'',
         sortBy = ''original-order''\<rparr>]
   \<and> length (filter (\<lambda>i. iso_element i = 1) (isotopes (init_Isotope portfolio_page))) = 1
   \<and> \<not> defined Isotope (portfolio_page\<lparr>globals := []\<rparr>)
   \<and> init_Isotope (portfolio_page\<lparr>globals := []\<rparr>) = portfolio_page\<lparr>globals := []\<rparr>
   \<and> ''fitRows'' \<noteq> ''''
   \<and> or_default (Some ''fitRows'') ''masonry'' = ''fitRows''"
proof -
  note T = init_Isotope_options[of portfolio_page "''masonry''" "''fitRows''"]
  note U = init_Isotope_options[of "portfolio_page\<lparr>globals := []\<rparr>" "''masonry''" "''fitRows''"]
  have a: "defined Isotope portfolio_page \<and> isotopes portfolio_page = []"
    by (simp add: defined_def portfolio_page_def)
  have b: "\<not> defined Isotope (portfolio_page\<lparr>globals := []\<rparr>)"
    by (simp add: defined_def)
  have c: "length (filter (\<lambda>i. iso_element i = 1) (isotopes (init_Isotope portfolio_page))) = 1"
    using T a by (simp add: portfolio_page_def)
  have d: "init_Isotope (portfolio_page\<lparr>globals := []\<rparr>) = portfolio_page\<lparr>globals := []\<rparr>"
    using U b by blast
  have e: "or_default (Some ''fitRows'') ''masonry'' = ''fitRows''"
    using T by simp
  have f: "isotopes (init_Isotope portfolio_page) =
       [\<lparr>iso_element = 0, layoutMode = ''fitRows'', iso_filter = Some ''.filter-app'',
         sortBy = ''original-order''\<rparr>,
        \<lparr>iso_element = 1, layoutMode = ''masonry'', iso_filter = Some ''*'',
         sortBy = ''original-order''\<rparr>]"
    by (simp add: init_Isotope_def defined_def portfolio_page_def enumerate_eq_zip upt_rec
        new_Isotope_def or_default_def js_truthy_def js_string_def)
  show ?thesis using a b c d e f by simp
qed

section \<open>The ready handler: results\<close>

lemma run_steps_preserves:
  assumes "\<And>f q. f \<in> set fs \<Longrightarrow> h (f q) = h q"
  shows "h (run_steps fs p) = h p"
  using assms
proof (induction fs arbitrary: p)
  case Nil
  then show ?case by simp
next
  case (Cons f fs)
  have "h (run_steps fs (f p)) = h (f p)"
    using Cons.prems by (intro Cons.IH) simp
  then show ?case
    using Cons.prems[of f p] by (simp add: Let_def)
qed

lemma swiper_forEach_keeps:
  "console (swiper_forEach k cs p) = console p"
  "font_promise (swiper_forEach k cs p) = font_promise p"
  "isotopes (swiper_forEach k cs p) = isotopes p"
  "filter_listeners (swiper_forEach k cs p) = filter_listeners p"
  "scrolled_to (swiper_forEach k cs p) = scrolled_to p"
  "header_wired (swiper_forEach k cs p) = header_wired p"
  "nav_wired (swiper_forEach k cs p) = nav_wired p"
  "navmenuLinks (swiper_forEach k cs p) = navmenuLinks p"
  by (induction k cs p rule: swiper_forEach.induct; simp add: throw_def split: swiper_config.splits)+

lemma late_steps_console:
  "console (setupEventDelegation q) = console q"
  "console (init_AOS q) = console q"
  "console (init_Typed q) = console q"
  "console (init_PureCounter q) = console q"
  "console (init_GLightbox q) = console q"
  "console (init_Swiper q) = console q"
  "console (init_Isotope q) = console q"
  "console (scroll_to_hash q) = console q"
  "console (wire_header_toggle q) = console q"
  "console (wire_navmenu q) = console q"
  by (simp_all add: setupEventDelegation_def init_AOS_def init_Typed_def init_PureCounter_def
      init_GLightbox_def init_Swiper_def init_Isotope_def scroll_to_hash_def
      wire_header_toggle_def wire_navmenu_def throw_def swiper_forEach_keeps Let_def
      split: option.splits hash_target.splits prod.splits)

lemma late_steps_font_promise:
  "font_promise (setupEventDelegation q) = font_promise q"
  "font_promise (init_AOS q) = font_promise q"
  "font_promise (init_Typed q) = font_promise q"
  "font_promise (init_PureCounter q) = font_promise q"
  "font_promise (init_GLightbox q) = font_promise q"
  "font_promise (init_Swiper q) = font_promise q"
  "font_promise (init_Isotope q) = font_promise q"
  "font_promise (scroll_to_hash q) = font_promise q"
  "font_promise (wire_header_toggle q) = font_promise q"
  "font_promise (wire_navmenu q) = font_promise q"
  by (simp_all add: setupEventDelegation_def init_AOS_def init_Typed_def init_PureCounter_def
      init_GLightbox_def init_Swiper_def init_Isotope_def scroll_to_hash_def
      wire_header_toggle_def wire_navmenu_def throw_def swiper_forEach_keeps Let_def
      split: option.splits hash_target.splits prod.splits)

lemma late_steps_keep_console:
  assumes "f \<in> set [setupEventDelegation, init_AOS, init_Typed, init_PureCounter, init_GLightbox,
      init_Swiper, init_Isotope, scroll_to_hash, wire_header_toggle, wire_navmenu]"
  shows "console (f q) = console q" and "font_promise (f q) = font_promise q"
  using assms by (auto simp add: late_steps_console late_steps_font_promise)

lemma early_steps:
  "thrown (console_call m s p) = thrown p"
  "thrown (call_lazyLoadImages p) = thrown p"
  "thrown (optimizeFontLoading p) = thrown p"
  "thrown (setupEventDelegation p) = thrown p"
  "thrown (init_AOS p) = thrown p"
  by (simp_all add: console_call_def call_lazyLoadImages_def optimizeFontLoading_def
      setupEventDelegation_def init_AOS_def)

lemma DOMContentLoaded_console:
  assumes "thrown p = None"
  shows "console (DOMContentLoaded p) =
           console p @ [(Console_log, ''DOM Content Loaded: Initializing optimizations...'')]
             @ (if defined FontFaceObserver p then []
                else [(Console_warn, ''FontFaceObserver not found. Font optimization skipped.'')])"
    and "font_promise (DOMContentLoaded p) = (font_promise p \<or> defined FontFaceObserver p)"
proof -
  let ?q = "optimizeFontLoading (call_lazyLoadImages
      (console_call Console_log ''DOM Content Loaded: Initializing optimizations...'' p))"
  let ?rest = "[setupEventDelegation, init_AOS, init_Typed, init_PureCounter, init_GLightbox,
      init_Swiper, init_Isotope, scroll_to_hash, wire_header_toggle, wire_navmenu]"
  have d: "DOMContentLoaded p = run_steps ?rest ?q"
    using assms by (simp add: DOMContentLoaded_def Let_def early_steps)
  have c: "console (run_steps ?rest ?q) = console ?q"
    by (rule run_steps_preserves) (rule late_steps_keep_console)
  have f: "font_promise (run_steps ?rest ?q) = font_promise ?q"
    by (rule run_steps_preserves) (rule late_steps_keep_console)
  show "console (DOMContentLoaded p) =
           console p @ [(Console_log, ''DOM Content Loaded: Initializing optimizations...'')]
             @ (if defined FontFaceObserver p then []
                else [(Console_warn, ''FontFaceObserver not found. Font optimization skipped.'')])"
    by (simp only: d c)
      (simp add: optimizeFontLoading_def call_lazyLoadImages_def console_call_def defined_def)
  show "font_promise (DOMContentLoaded p) = (font_promise p \<or> defined FontFaceObserver p)"
    by (simp only: d f)
      (simp add: optimizeFontLoading_def call_lazyLoadImages_def console_call_def defined_def)
qed

lemma fonts_settled_console:
  "console (fonts_settled loaded q) =
     console q @ (if font_promise q
                  then [if loaded then (Console_log, ''All fonts loaded'')
                        else (Console_error, ''Error loading fonts:'')]
                  else [])"
  by (simp add: fonts_settled_def console_call_def)

lemma bare_page_ready:
  "console (DOMContentLoaded (portfolio_page\<lparr>globals := []\<rparr>)) =
     [(Console_log, ''DOM Content Loaded: Initializing optimizations...''),
      (Console_warn, ''FontFaceObserver not found. Font optimization skipped.'')]"
  "thrown (DOMContentLoaded (portfolio_page\<lparr>globals := []\<rparr>)) = None"
  by (simp_all add: DOMContentLoaded_console DOMContentLoaded_def Let_def defined_def
      console_call_def call_lazyLoadImages_def optimizeFontLoading_def setupEventDelegation_def
      init_AOS_def init_Typed_def init_PureCounter_def init_GLightbox_def init_Swiper_def
      init_Isotope_def scroll_to_hash_def wire_header_toggle_def wire_navmenu_def
      portfolio_page_def three_example)

lemma portfolio_page_ready:
  "thrown (DOMContentLoaded portfolio_page) = None"
  "widgets (DOMContentLoaded portfolio_page) =
     [AOS_init, Typed_init [''Designer'', ''Developer''], PureCounter_init, GLightbox_init,
      Swiper_init 0 ''{}'']"
  "header_wired (DOMContentLoaded portfolio_page)"
  "nav_wired (DOMContentLoaded portfolio_page)"
  "filter_listeners (DOMContentLoaded portfolio_page) = [(1, 0), (2, 1)]"
  "map is_active (navmenuLinks (DOMContentLoaded portfolio_page)) = [False, True, False]"
  by (simp_all add: DOMContentLoaded_def Let_def defined_def
      console_call_def call_lazyLoadImages_def optimizeFontLoading_def setupEventDelegation_def
      init_AOS_def init_Typed_def init_PureCounter_def init_GLightbox_def init_Swiper_def
      init_Isotope_def scroll_to_hash_def wire_header_toggle_def wire_navmenu_def
      portfolio_page_def three_example enumerate_eq_zip upt_rec filter_wiring_def
      is_active_def classList_contains_def)

text \<open>
  C8 (as amended). For each third-party capability other than the font observer (AOS,
  Typed, PureCounter, GLightbox, Swiper, Isotope), when its global is absent the part of
  the ready handler that uses it changes nothing: no console call, no error. When the font
  observer's global is absent, that part makes one console call, a warning, and nothing
  else. A page with no header or no header toggle is left unwired, a page with no grid gets
  no instance, and a page with no scroll-to-top control is left as it was by the scroll
  handler, all without an error. Over the whole ready handler and the settling of the font
  promise, on a page that starts with no exception and no font promise, the console calls
  that report a failure are exactly: the warning when the font observer is absent, and
  otherwise the error when the font promise is rejected.
\<close>

theorem capability_absence:
  "(c \<in> set third_party \<and> c \<noteq> FontFaceObserver \<and> \<not> defined c p \<longrightarrow> bootstrap c p = p)
   \<and> (\<not> defined FontFaceObserver p \<longrightarrow>
        bootstrap FontFaceObserver p =
          p\<lparr>console := console p
               @ [(Console_warn, ''FontFaceObserver not found. Font optimization skipped.'')]\<rparr>)
   \<and> (headerToggle p = None \<or> header p = None \<longrightarrow> wire_header_toggle p = p)
   \<and> (layouts p = [] \<longrightarrow> init_Isotope p = p)
   \<and> (scrollTopButton v = None \<longrightarrow> handleScroll_body v = v)
   \<and> (thrown p = None \<and> \<not> font_promise p \<longrightarrow>
        failures (fonts_settled loaded (DOMContentLoaded p)) =
          failures p @
            (if \<not> defined FontFaceObserver p
             then [(Console_warn, ''FontFaceObserver not found. Font optimization skipped.'')]
             else if loaded then [] else [(Console_error, ''Error loading fonts:'')]))"
proof (intro conjI impI)
  assume "c \<in> set third_party \<and> c \<noteq> FontFaceObserver \<and> \<not> defined c p"
  then show "bootstrap c p = p"
    by (auto simp add: third_party_def init_AOS_def init_Typed_def init_PureCounter_def
        init_GLightbox_def init_Swiper_def init_Isotope_def)
next
  assume "\<not> defined FontFaceObserver p"
  then show "bootstrap FontFaceObserver p =
          p\<lparr>console := console p
               @ [(Console_warn, ''FontFaceObserver not found. Font optimization skipped.'')]\<rparr>"
    by (simp add: optimizeFontLoading_def console_call_def)
next
  assume "headerToggle p = None \<or> header p = None"
  then show "wire_header_toggle p = p"
    by (auto simp add: wire_header_toggle_def)
next
  assume "layouts p = []"
  then show "init_Isotope p = p"
    by (simp add: init_Isotope_def)
next
  assume "scrollTopButton v = None"
  then show "handleScroll_body v = v"
    by (simp add: handleScroll_body_def)
next
  assume a: "thrown p = None \<and> \<not> font_promise p"
  show "failures (fonts_settled loaded (DOMContentLoaded p)) =
          failures p @
            (if \<not> defined FontFaceObserver p
             then [(Console_warn, ''FontFaceObserver not found. Font optimization skipped.'')]
             else if loaded then [] else [(Console_error, ''Error loading fonts:'')])"
    using a
    by (simp add: failures_def fonts_settled_console DOMContentLoaded_console failure_entry_def)
qed

theorem capability_absence_witness:
  "Swiper \<in> set third_party \<and> Swiper \<noteq> FontFaceObserver
   \<and> \<not> defined Swiper (portfolio_page\<lparr>globals := []\<rparr>)
   \<and> bootstrap Swiper (portfolio_page\<lparr>globals := []\<rparr>) = portfolio_page\<lparr>globals := []\<rparr>
   \<and> \<not> defined FontFaceObserver (portfolio_page\<lparr>globals := []\<rparr>)
   \<and> console (bootstrap FontFaceObserver (portfolio_page\<lparr>globals := []\<rparr>))
       = [(Console_warn, ''FontFaceObserver not found. Font optimization skipped.'')]
   \<and> header (portfolio_page\<lparr>header := None\<rparr>) = None
   \<and> wire_header_toggle (portfolio_page\<lparr>header := None\<rparr>) = portfolio_page\<lparr>header := None\<rparr>
   \<and> layouts (portfolio_page\<lparr>layouts := []\<rparr>) = []
   \<and> init_Isotope (portfolio_page\<lparr>layouts := []\<rparr>) = portfolio_page\<lparr>layouts := []\<rparr>
   \<and> scrollTopButton \<lparr>pageYOffset = 150, docScrollTop = 150, scrollTopButton = None\<rparr> = None
   \<and> handleScroll_body \<lparr>pageYOffset = 150, docScrollTop = 150, scrollTopButton = None\<rparr>
       = \<lparr>pageYOffset = 150, docScrollTop = 150, scrollTopButton = None\<rparr>
   \<and> thrown portfolio_page = None \<and> \<not> font_promise portfolio_page
   \<and> failures (fonts_settled False (DOMContentLoaded portfolio_page))
       = [(Console_error, ''Error loading fonts:'')]
   \<and> failures (fonts_settled True (DOMContentLoaded portfolio_page)) = []"
proof -
  let ?v = "\<lparr>pageYOffset = 150, docScrollTop = 150, scrollTopButton = None\<rparr>"
  note T1 = capability_absence[of Swiper "portfolio_page\<lparr>globals := []\<rparr>" ?v False]
  note T2 = capability_absence[of Swiper "portfolio_page\<lparr>header := None\<rparr>" ?v False]
  note T3 = capability_absence[of Swiper "portfolio_page\<lparr>layouts := []\<rparr>" ?v False]
  note T4 = capability_absence[of Swiper portfolio_page ?v False]
  note T5 = capability_absence[of Swiper portfolio_page ?v True]
  have a: "Swiper \<in> set third_party \<and> Swiper \<noteq> FontFaceObserver
      \<and> \<not> defined Swiper (portfolio_page\<lparr>globals := []\<rparr>)"
    and b: "\<not> defined FontFaceObserver (portfolio_page\<lparr>globals := []\<rparr>)"
    by (simp_all add: third_party_def defined_def)
  have c: "header (portfolio_page\<lparr>header := None\<rparr>) = None"
    and d: "layouts (portfolio_page\<lparr>layouts := []\<rparr>) = []"
    and e: "scrollTopButton ?v = None"
    by simp_all
  have f: "thrown portfolio_page = None \<and> \<not> font_promise portfolio_page"
    and g: "defined FontFaceObserver portfolio_page" and h: "failures portfolio_page = []"
    and i: "console (portfolio_page\<lparr>globals := []\<rparr>) = []"
    by (simp_all add: portfolio_page_def defined_def failures_def)
  have 1: "bootstrap Swiper (portfolio_page\<lparr>globals := []\<rparr>) = portfolio_page\<lparr>globals := []\<rparr>"
    using T1 a by blast
  have "bootstrap FontFaceObserver (portfolio_page\<lparr>globals := []\<rparr>) =
          (portfolio_page\<lparr>globals := []\<rparr>)\<lparr>console := console (portfolio_page\<lparr>globals := []\<rparr>)
               @ [(Console_warn, ''FontFaceObserver not found. Font optimization skipped.'')]\<rparr>"
    using T1 b by blast
  then have 2: "console (bootstrap FontFaceObserver (portfolio_page\<lparr>globals := []\<rparr>))
       = [(Console_warn, ''FontFaceObserver not found. Font optimization skipped.'')]"
    using i by simp
  have 3: "wire_header_toggle (portfolio_page\<lparr>header := None\<rparr>) = portfolio_page\<lparr>header := None\<rparr>"
    using T2 c by blast
  have 4: "init_Isotope (portfolio_page\<lparr>layouts := []\<rparr>) = portfolio_page\<lparr>layouts := []\<rparr>"
    using T3 d by blast
  have 5: "handleScroll_body ?v = ?v"
    using T4 e by blast
  have 6: "failures (fonts_settled False (DOMContentLoaded portfolio_page))
       = [(Console_error, ''Error loading fonts:'')]"
    using T4 f g h by simp
  have 7: "failures (fonts_settled True (DOMContentLoaded portfolio_page)) = []"
    using T5 f g h by simp
  show ?thesis
    using a b c d e f 1 2 3 4 5 6 7 by blast
qed

text \<open>
  The page with no global at all: the font observer is a third-party capability, it is
  absent, no exception is raised, and the console has a warning about it.
\<close>

theorem capability_absence_counterexample:
  "FontFaceObserver \<in> set third_party
   \<and> \<not> defined FontFaceObserver (portfolio_page\<lparr>globals := []\<rparr>)
   \<and> thrown (DOMContentLoaded (portfolio_page\<lparr>globals := []\<rparr>)) = None
   \<and> console (DOMContentLoaded (portfolio_page\<lparr>globals := []\<rparr>)) =
       [(Console_log, ''DOM Content Loaded: Initializing optimizations...''),
        (Console_warn, ''FontFaceObserver not found. Font optimization skipped.'')]
   \<and> failures (DOMContentLoaded (portfolio_page\<lparr>globals := []\<rparr>)) =
       [(Console_warn, ''FontFaceObserver not found. Font optimization skipped.'')]"
  by (simp add: bare_page_ready failures_def failure_entry_def third_party_def defined_def)

text \<open>
  C10. When the Typed global is present and the page has a \<^verbatim>\<open>.typed\<close> element without the
  \<^verbatim>\<open>data-typed-items\<close> attribute, the Typed bootstrap throws a TypeError, and the ready
  handler ends there: the page is as the five steps before it left it (lazy images, fonts,
  event delegation and AOS did run), and no counter, lightbox or carousel is made, no
  Isotope instance and no filter listener is added, no scroll to the hash is asked for,
  and neither the header toggle nor the navigation highlighter is wired or run.
\<close>

theorem typed_without_items_aborts:
  "defined Typed p \<and> typed_element p = Some None \<and> thrown p = None \<longrightarrow>
     thrown (init_Typed p) = Some TypeError
     \<and> thrown (DOMContentLoaded p) = Some TypeError
     \<and> DOMContentLoaded p =
         throw TypeError (init_AOS (setupEventDelegation (optimizeFontLoading
           (call_lazyLoadImages
             (console_call Console_log ''DOM Content Loaded: Initializing optimizations...'' p)))))
     \<and> delegation_wired (DOMContentLoaded p)
     \<and> widgets (DOMContentLoaded p) = widgets p @ (if defined AOS p then [AOS_init] else [])
     \<and> isotopes (DOMContentLoaded p) = isotopes p
     \<and> filter_listeners (DOMContentLoaded p) = filter_listeners p
     \<and> scrolled_to (DOMContentLoaded p) = scrolled_to p
     \<and> header_wired (DOMContentLoaded p) = header_wired p
     \<and> nav_wired (DOMContentLoaded p) = nav_wired p
     \<and> navmenuLinks (DOMContentLoaded p) = navmenuLinks p"
proof (intro impI)
  assume a: "defined Typed p \<and> typed_element p = Some None \<and> thrown p = None"
  let ?q = "init_AOS (setupEventDelegation (optimizeFontLoading
           (call_lazyLoadImages
             (console_call Console_log ''DOM Content Loaded: Initializing optimizations...'' p))))"
  have q: "defined Typed ?q" "typed_element ?q = Some None" "thrown ?q = None"
    using a
    by (simp_all add: init_AOS_def setupEventDelegation_def optimizeFontLoading_def
        call_lazyLoadImages_def console_call_def defined_def)
  have t: "init_Typed ?q = throw TypeError ?q"
    using q by (simp add: init_Typed_def)
  have d: "DOMContentLoaded p = throw TypeError ?q"
    using a t by (simp add: DOMContentLoaded_def Let_def early_steps throw_def)
  have i: "thrown (init_Typed p) = Some TypeError"
    using a by (simp add: init_Typed_def throw_def)
  show "thrown (init_Typed p) = Some TypeError
     \<and> thrown (DOMContentLoaded p) = Some TypeError
     \<and> DOMContentLoaded p = throw TypeError ?q
     \<and> delegation_wired (DOMContentLoaded p)
     \<and> widgets (DOMContentLoaded p) = widgets p @ (if defined AOS p then [AOS_init] else [])
     \<and> isotopes (DOMContentLoaded p) = isotopes p
     \<and> filter_listeners (DOMContentLoaded p) = filter_listeners p
     \<and> scrolled_to (DOMContentLoaded p) = scrolled_to p
     \<and> header_wired (DOMContentLoaded p) = header_wired p
     \<and> nav_wired (DOMContentLoaded p) = nav_wired p
     \<and> navmenuLinks (DOMContentLoaded p) = navmenuLinks p"
    unfolding d using i
    by (simp add: throw_def init_AOS_def setupEventDelegation_def optimizeFontLoading_def
        call_lazyLoadImages_def console_call_def defined_def)
qed

theorem typed_without_items_aborts_witness:
  "defined Typed (portfolio_page\<lparr>typed_element := Some None\<rparr>)
   \<and> typed_element (portfolio_page\<lparr>typed_element := Some None\<rparr>) = Some None
   \<and> thrown (portfolio_page\<lparr>typed_element := Some None\<rparr>) = None
   \<and> thrown (DOMContentLoaded (portfolio_page\<lparr>typed_element := Some None\<rparr>)) = Some TypeError
   \<and> widgets (DOMContentLoaded (portfolio_page\<lparr>typed_element := Some None\<rparr>)) = [AOS_init]
   \<and> isotopes (DOMContentLoaded (portfolio_page\<lparr>typed_element := Some None\<rparr>)) = []
   \<and> filter_listeners (DOMContentLoaded (portfolio_page\<lparr>typed_element := Some None\<rparr>)) = []
   \<and> \<not> header_wired (DOMContentLoaded (portfolio_page\<lparr>typed_element := Some None\<rparr>))
   \<and> \<not> nav_wired (DOMContentLoaded (portfolio_page\<lparr>typed_element := Some None\<rparr>))
   \<and> map is_active (navmenuLinks (DOMContentLoaded (portfolio_page\<lparr>typed_element := Some None\<rparr>)))
       = [True, False, False]
   \<and> thrown (DOMContentLoaded portfolio_page) = None
   \<and> header_wired (DOMContentLoaded portfolio_page)
   \<and> nav_wired (DOMContentLoaded portfolio_page)
   \<and> map is_active (navmenuLinks (DOMContentLoaded portfolio_page)) = [False, True, False]"
proof -
  note T = typed_without_items_aborts[of "portfolio_page\<lparr>typed_element := Some None\<rparr>"]
  have a: "defined Typed (portfolio_page\<lparr>typed_element := Some None\<rparr>)
      \<and> typed_element (portfolio_page\<lparr>typed_element := Some None\<rparr>) = Some None
      \<and> thrown (portfolio_page\<lparr>typed_element := Some None\<rparr>) = None"
    and b: "defined AOS (portfolio_page\<lparr>typed_element := Some None\<rparr>)"
    by (simp_all add: defined_def portfolio_page_def)
  have c: "widgets (portfolio_page\<lparr>typed_element := Some None\<rparr>) = []"
    "isotopes (portfolio_page\<lparr>typed_element := Some None\<rparr>) = []"
    "filter_listeners (portfolio_page\<lparr>typed_element := Some None\<rparr>) = []"
    "\<not> header_wired (portfolio_page\<lparr>typed_element := Some None\<rparr>)"
    "\<not> nav_wired (portfolio_page\<lparr>typed_element := Some None\<rparr>)"
    "map is_active (navmenuLinks (portfolio_page\<lparr>typed_element := Some None\<rparr>))
       = [True, False, False]"
    by (simp_all add: portfolio_page_def three_links_def is_active_def classList_contains_def)
  from T a have
    "thrown (DOMContentLoaded (portfolio_page\<lparr>typed_element := Some None\<rparr>)) = Some TypeError"
    "widgets (DOMContentLoaded (portfolio_page\<lparr>typed_element := Some None\<rparr>))
       = widgets (portfolio_page\<lparr>typed_element := Some None\<rparr>)
         @ (if defined AOS (portfolio_page\<lparr>typed_element := Some None\<rparr>) then [AOS_init] else [])"
    "isotopes (DOMContentLoaded (portfolio_page\<lparr>typed_element := Some None\<rparr>))
       = isotopes (portfolio_page\<lparr>typed_element := Some None\<rparr>)"
    "filter_listeners (DOMContentLoaded (portfolio_page\<lparr>typed_element := Some None\<rparr>))
       = filter_listeners (portfolio_page\<lparr>typed_element := Some None\<rparr>)"
    "header_wired (DOMContentLoaded (portfolio_page\<lparr>typed_element := Some None\<rparr>))
       = header_wired (portfolio_page\<lparr>typed_element := Some None\<rparr>)"
    "nav_wired (DOMContentLoaded (portfolio_page\<lparr>typed_element := Some None\<rparr>))
       = nav_wired (portfolio_page\<lparr>typed_element := Some None\<rparr>)"
    "navmenuLinks (DOMContentLoaded (portfolio_page\<lparr>typed_element := Some None\<rparr>))
       = navmenuLinks (portfolio_page\<lparr>typed_element := Some None\<rparr>)"
    by blast+
  then show ?thesis
    using a b c by (simp add: portfolio_page_ready)
qed

section \<open>Clicks on filter controls: results\<close>

lemma li_simps [simp]:
  "li_ancestors (deactivate l) = li_ancestors l"
  "li_ancestors (activate l) = li_ancestors l"
  "li_data_filter (deactivate l) = li_data_filter l"
  "li_data_filter (activate l) = li_data_filter l"
  "deactivate (deactivate l) = deactivate l"
  "activate (deactivate (activate (deactivate l))) = activate (deactivate l)"
  "is_filter_active (activate l)"
  "\<not> is_filter_active (deactivate l)"
  by (simp_all add: deactivate_def activate_def is_filter_active_def classList_contains_def
      classList_add_def classList_remove_def)

lemma click_effect_fields [simp]:
  "length (lis (click_effect t S G p)) = length (lis p)"
  "filter_listeners (click_effect t S G p) = filter_listeners p"
  "delegation_wired (click_effect t S G p) = delegation_wired p"
  "portfolio_filters (click_effect t S G p) = portfolio_filters p"
  "layouts (click_effect t S G p) = layouts p"
  "globals (click_effect t S G p) = globals p"
  by (simp_all add: click_effect_def)

lemma click_effect_target:
  "t < length (lis p) \<Longrightarrow> lis (click_effect t S G p) ! t = activate (deactivate (lis p ! t))"
  by (simp add: click_effect_def)

lemma click_effect_other:
  "j < length (lis p) \<Longrightarrow> j \<noteq> t \<Longrightarrow>
   lis (click_effect t S G p) ! j =
     (if S (li_ancestors (lis p ! j)) then deactivate (lis p ! j) else lis p ! j)"
  by (simp add: click_effect_def)

lemma click_effect_ancestors:
  "j < length (lis p) \<Longrightarrow>
   li_ancestors (lis (click_effect t S G p) ! j) = li_ancestors (lis p ! j)"
  by (cases "j = t") (simp_all add: click_effect_target click_effect_other)

lemma click_effect_data_filter:
  "j < length (lis p) \<Longrightarrow>
   li_data_filter (lis (click_effect t S G p) ! j) = li_data_filter (lis p ! j)"
  by (cases "j = t") (simp_all add: click_effect_target click_effect_other)

lemma filters_click_listener_effect:
  assumes "t < length (lis p)" and "b \<in> set (li_ancestors (lis p ! t))"
  shows "filters_click_listener b g (Target_li t) p = click_effect t (\<lambda>as. b \<in> set as) (\<lambda>e. e = g) p"
  using assms
  by (simp add: filters_click_listener_def click_effect_def Let_def arrange_on_def)

lemma body_click_listener_effect:
  assumes "t < length (lis p)"
    and "portfolio_li (portfolio_filters p) (li_ancestors (lis p ! t))"
  shows "body_click_listener (Target_li t) p =
           click_effect t (portfolio_li (portfolio_filters p))
             (\<lambda>e. e = 0 \<and> layouts p \<noteq> [] \<and> defined Isotope p) p"
proof -
  have "li_data_filter ((map (\<lambda>l. if portfolio_li (portfolio_filters p) (li_ancestors l)
            then deactivate l else l) (lis p))[t := activate (deactivate (lis p ! t))] ! t)
          = li_data_filter (lis p ! t)"
    using assms(1) by simp
  then show ?thesis
    using assms
    by (simp add: body_click_listener_def click_effect_def Let_def arrange_on_def defined_def)
qed

lemma click_effect_twice:
  assumes "t < length (lis p)"
  shows "click_effect t S2 G2 (click_effect t S1 G1 p) =
           click_effect t (\<lambda>as. S1 as \<or> S2 as) (\<lambda>e. G1 e \<or> G2 e) p"
proof -
  let ?q = "click_effect t S1 G1 p"
  have l: "lis (click_effect t S2 G2 ?q) = lis (click_effect t (\<lambda>as. S1 as \<or> S2 as) (\<lambda>e. G1 e \<or> G2 e) p)"
  proof (rule nth_equalityI)
    show "length (lis (click_effect t S2 G2 ?q))
            = length (lis (click_effect t (\<lambda>as. S1 as \<or> S2 as) (\<lambda>e. G1 e \<or> G2 e) p))"
      by simp
  next
    fix j assume "j < length (lis (click_effect t S2 G2 ?q))"
    then have j: "j < length (lis p)" by simp
    show "lis (click_effect t S2 G2 ?q) ! j
            = lis (click_effect t (\<lambda>as. S1 as \<or> S2 as) (\<lambda>e. G1 e \<or> G2 e) p) ! j"
    proof (cases "j = t")
      case True
      then show ?thesis using j by (simp add: click_effect_target)
    next
      case False
      then show ?thesis using j by (simp add: click_effect_other)
    qed
  qed
  have f: "li_data_filter (lis ?q ! t) = li_data_filter (lis p ! t)"
    using assms by (rule click_effect_data_filter)
  have i: "isotopes (click_effect t S2 G2 ?q)
             = isotopes (click_effect t (\<lambda>as. S1 as \<or> S2 as) (\<lambda>e. G1 e \<or> G2 e) p)"
  proof -
    have i1: "isotopes ?q = map (\<lambda>i. if G1 (iso_element i)
                 then i\<lparr>iso_filter := li_data_filter (lis p ! t)\<rparr> else i) (isotopes p)"
      by (simp add: click_effect_def)
    have i2: "isotopes (click_effect t S2 G2 ?q) = map (\<lambda>i. if G2 (iso_element i)
                 then i\<lparr>iso_filter := li_data_filter (lis ?q ! t)\<rparr> else i) (isotopes ?q)"
      by (simp add: click_effect_def)
    have i3: "isotopes (click_effect t (\<lambda>as. S1 as \<or> S2 as) (\<lambda>e. G1 e \<or> G2 e) p)
                = map (\<lambda>i. if G1 (iso_element i) \<or> G2 (iso_element i)
                 then i\<lparr>iso_filter := li_data_filter (lis p ! t)\<rparr> else i) (isotopes p)"
      by (simp add: click_effect_def)
    show ?thesis
      unfolding i2 f i1 i3 by auto
  qed
  have r: "click_effect t S2 G2 ?q = p\<lparr>lis := lis (click_effect t S2 G2 ?q),
              isotopes := isotopes (click_effect t S2 G2 ?q)\<rparr>"
    by (simp add: click_effect_def)
  have r': "click_effect t (\<lambda>as. S1 as \<or> S2 as) (\<lambda>e. G1 e \<or> G2 e) p
      = p\<lparr>lis := lis (click_effect t (\<lambda>as. S1 as \<or> S2 as) (\<lambda>e. G1 e \<or> G2 e) p),
              isotopes := isotopes (click_effect t (\<lambda>as. S1 as \<or> S2 as) (\<lambda>e. G1 e \<or> G2 e) p)\<rparr>"
    by (simp add: click_effect_def)
  show ?thesis
    by (subst r, subst r') (simp only: l i)
qed

lemma foldl_listeners_effect:
  assumes "t < length (lis p)" and "ls \<noteq> []"
    and "\<forall>x \<in> set ls. fst x \<in> set (li_ancestors (lis p ! t))"
  shows "foldl (\<lambda>q (filtersElem, g). filters_click_listener filtersElem g (Target_li t) q) p ls =
           click_effect t (\<lambda>as. list_ex (\<lambda>x. fst x \<in> set as) ls)
             (\<lambda>e. list_ex (\<lambda>x. snd x = e) ls) p"
  using assms(2,3)
proof (induction ls rule: rev_induct)
  case Nil
  then show ?case by simp
next
  case (snoc x ls)
  obtain b g where x: "x = (b, g)" by (cases x)
  have b: "b \<in> set (li_ancestors (lis p ! t))" using snoc.prems(2) x by simp
  show ?case
  proof (cases "ls = []")
    case True
    have "(\<lambda>as. b \<in> set as) = (\<lambda>as. list_ex (\<lambda>x. fst x \<in> set as) [(b, g)])"
      and "(\<lambda>e. e = g) = (\<lambda>e. list_ex (\<lambda>x. snd x = e) [(b, g)])"
      by auto
    then show ?thesis
      using True x filters_click_listener_effect[OF assms(1) b, of g] by simp
  next
    case False
    let ?q = "click_effect t (\<lambda>as. list_ex (\<lambda>x. fst x \<in> set as) ls)
                (\<lambda>e. list_ex (\<lambda>x. snd x = e) ls) p"
    have ih: "foldl (\<lambda>q (filtersElem, g). filters_click_listener filtersElem g (Target_li t) q) p ls = ?q"
      using snoc.IH[OF False] snoc.prems(2) by simp
    have tq: "t < length (lis ?q)" using assms(1) by simp
    have bq: "b \<in> set (li_ancestors (lis ?q ! t))"
      using b assms(1) by (simp add: click_effect_ancestors)
    have "foldl (\<lambda>q (filtersElem, g). filters_click_listener filtersElem g (Target_li t) q) p (ls @ [x])
            = filters_click_listener b g (Target_li t) ?q"
      using ih x by simp
    also have "\<dots> = click_effect t (\<lambda>as. b \<in> set as) (\<lambda>e. e = g) ?q"
      by (rule filters_click_listener_effect[OF tq bq])
    also have "\<dots> = click_effect t
         (\<lambda>as. list_ex (\<lambda>x. fst x \<in> set as) ls \<or> b \<in> set as)
         (\<lambda>e. list_ex (\<lambda>x. snd x = e) ls \<or> e = g) p"
      by (rule click_effect_twice[OF assms(1)])
    also have "(\<lambda>as. list_ex (\<lambda>x. fst x \<in> set as) ls \<or> b \<in> set as)
                 = (\<lambda>as. list_ex (\<lambda>x. fst x \<in> set as) (ls @ [x]))"
      using x by auto
    also have "(\<lambda>e. list_ex (\<lambda>x. snd x = e) ls \<or> e = g)
                 = (\<lambda>e. list_ex (\<lambda>x. snd x = e) (ls @ [x]))"
      using x by auto
    finally show ?thesis .
  qed
qed

lemma bubbling_ancestors:
  "\<forall>x \<in> set (bubbling t p). fst x \<in> set (li_ancestors (lis p ! t))"
  by (auto simp add: bubbling_def)

lemma bubbling_mem:
  "x \<in> set (bubbling t p) \<longleftrightarrow>
     x \<in> set (filter_listeners p) \<and> fst x \<in> set (li_ancestors (lis p ! t))"
  by (cases x) (auto simp add: bubbling_def)

lemma click_li_effect:
  "click (Target_li t) p =
     (if t < length (lis p) \<and> click_handled t p
      then click_effect t (click_scope t p) (click_grids t p) p else p)"
proof (cases "t < length (lis p)")
  case False
  then show ?thesis by (simp add: click_def)
next
  case t: True
  let ?d = "delegation_wired p \<and> portfolio_li (portfolio_filters p) (li_ancestors (lis p ! t))"
  let ?Sb = "\<lambda>as. list_ex (\<lambda>x. fst x \<in> set as) (bubbling t p)"
  let ?Gb = "\<lambda>e. list_ex (\<lambda>x. snd x = e) (bubbling t p)"
  let ?Sd = "portfolio_li (portfolio_filters p)"
  let ?Gd = "\<lambda>e. e = 0 \<and> layouts p \<noteq> [] \<and> defined Isotope p"
  let ?p1 = "foldl (\<lambda>q (filtersElem, g). filters_click_listener filtersElem g (Target_li t) q) p (bubbling t p)"
  have c: "click (Target_li t) p = (if delegation_wired ?p1 then body_click_listener (Target_li t) ?p1 else ?p1)"
    using t by (simp add: click_def Let_def)
  show ?thesis
  proof (cases "bubbling t p = []")
    case e: True
    have p1: "?p1 = p" using e by simp
    show ?thesis
    proof (cases ?d)
      case True
      have "click_scope t p = ?Sd" "click_grids t p = ?Gd"
        using True e by (auto simp add: click_scope_def click_grids_def)
      then show ?thesis
        using True t c p1 body_click_listener_effect[OF t]
        by (simp add: click_handled_def)
    next
      case False
      then show ?thesis
        using t c p1 e by (auto simp add: click_handled_def body_click_listener_def)
    qed
  next
    case ne: False
    have p1: "?p1 = click_effect t ?Sb ?Gb p"
      by (rule foldl_listeners_effect[OF t ne bubbling_ancestors])
    have a1: "li_ancestors (lis (click_effect t ?Sb ?Gb p) ! t) = li_ancestors (lis p ! t)"
      using t by (rule click_effect_ancestors)
    show ?thesis
    proof (cases ?d)
      case True
      have t1: "t < length (lis (click_effect t ?Sb ?Gb p))" using t by simp
      have g1: "portfolio_li (portfolio_filters (click_effect t ?Sb ?Gb p))
                  (li_ancestors (lis (click_effect t ?Sb ?Gb p) ! t))"
        using True a1 by simp
      have "click (Target_li t) p = body_click_listener (Target_li t) (click_effect t ?Sb ?Gb p)"
        using c p1 True by simp
      also have "\<dots> = click_effect t ?Sd
            (\<lambda>e. e = 0 \<and> layouts (click_effect t ?Sb ?Gb p) \<noteq> [] \<and>
                  defined Isotope (click_effect t ?Sb ?Gb p))
            (click_effect t ?Sb ?Gb p)"
        using body_click_listener_effect[OF t1 g1] by simp
      also have "\<dots> = click_effect t ?Sd ?Gd (click_effect t ?Sb ?Gb p)"
        by (simp add: defined_def)
      also have "\<dots> = click_effect t (\<lambda>as. ?Sb as \<or> ?Sd as) (\<lambda>e. ?Gb e \<or> ?Gd e) p"
        by (rule click_effect_twice[OF t])
      also have "(\<lambda>as. ?Sb as \<or> ?Sd as) = click_scope t p"
        using True by (auto simp add: click_scope_def)
      also have "(\<lambda>e. ?Gb e \<or> ?Gd e) = click_grids t p"
        using True by (auto simp add: click_grids_def)
      finally show ?thesis
        using t ne by (simp add: click_handled_def)
    next
      case False
      have "click_scope t p = ?Sb" "click_grids t p = ?Gb"
        using False by (auto simp add: click_scope_def click_grids_def)
      moreover have "click (Target_li t) p = click_effect t ?Sb ?Gb p"
        using c p1 False a1 by (auto simp add: body_click_listener_def)
      ultimately show ?thesis
        using t ne by (simp add: click_handled_def)
    qed
  qed
qed

lemma click_scope_bar:
  assumes "(b, g) \<in> set (filter_listeners p)" and "b \<in> set (li_ancestors (lis p ! t))"
  shows "click_handled t p"
    and "b \<in> set as \<Longrightarrow> click_scope t p as"
    and "click_grids t p g"
proof -
  have m: "(b, g) \<in> set (bubbling t p)"
    using assms by (simp add: bubbling_mem)
  then show "click_handled t p" by (auto simp add: click_handled_def)
  show "b \<in> set as \<Longrightarrow> click_scope t p as"
    using m by (force simp add: click_scope_def list_ex_iff)
  show "click_grids t p g"
    using m by (force simp add: click_grids_def list_ex_iff)
qed

lemma click_scope_body:
  assumes "delegation_wired p" and "portfolio_li (portfolio_filters p) (li_ancestors (lis p ! t))"
  shows "click_handled t p"
    and "portfolio_li (portfolio_filters p) as \<Longrightarrow> click_scope t p as"
    and "layouts p \<noteq> [] \<and> defined Isotope p \<Longrightarrow> click_grids t p 0"
  using assms by (simp_all add: click_handled_def click_scope_def click_grids_def)

lemma click_effect_isotopes:
  "map iso_element (isotopes (click_effect t S G p)) = map iso_element (isotopes p)"
  "i \<in> set (isotopes (click_effect t S G p)) \<Longrightarrow> G (iso_element i) \<Longrightarrow>
     iso_filter i = li_data_filter (lis p ! t)"
  by (auto simp add: click_effect_def)

lemma visible_after:
  "iso_filter i = Some f \<Longrightarrow>
   visible_items matches items i = Some (if f = ''*'' then items else filter (matches f) items)"
  by (simp add: visible_items_def iso_visible_def)

lemma ready_page_fields:
  "lis (DOMContentLoaded portfolio_page) = lis portfolio_page"
  "filter_listeners (DOMContentLoaded portfolio_page) = [(1, 0), (2, 1)]"
  "isotopes (DOMContentLoaded portfolio_page) =
     [\<lparr>iso_element = 0, layoutMode = ''fitRows'', iso_filter = Some ''.filter-app'',
       sortBy = ''original-order''\<rparr>,
      \<lparr>iso_element = 1, layoutMode = ''masonry'', iso_filter = Some ''*'',
       sortBy = ''original-order''\<rparr>]"
  "delegation_wired (DOMContentLoaded portfolio_page)"
  "portfolio_filters (DOMContentLoaded portfolio_page) = [1, 2]"
  "layouts (DOMContentLoaded portfolio_page) = layouts portfolio_page"
  "globals (DOMContentLoaded portfolio_page) = globals portfolio_page"
  "header (DOMContentLoaded portfolio_page) = Some []"
  "headerToggle (DOMContentLoaded portfolio_page) = Some [''bi-list'']"
  by (simp_all add: DOMContentLoaded_def Let_def defined_def
      console_call_def call_lazyLoadImages_def optimizeFontLoading_def setupEventDelegation_def
      init_AOS_def init_Typed_def init_PureCounter_def init_GLightbox_def init_Swiper_def
      init_Isotope_def scroll_to_hash_def wire_header_toggle_def wire_navmenu_def
      portfolio_page_def three_example enumerate_eq_zip upt_rec filter_wiring_def
      new_Isotope_def or_default_def js_truthy_def js_string_def)

text \<open>
  A click whose target is an element inside a control, and not the \<^verbatim>\<open>li\<close> itself, passes
  through the same listeners, and none of them acts.
\<close>

lemma click_inside: "click (Target_inside t) p = p"
proof -
  have "foldl (\<lambda>q (filtersElem, g). filters_click_listener filtersElem g (Target_inside t) q) p ls
          = p" for ls
    by (induction ls) (simp_all add: filters_click_listener_def split: prod.splits)
  then show ?thesis
    by (simp add: click_def body_click_listener_def)
qed

text \<open>
  C5 (as amended). A click whose target is a filter control itself, the \<^verbatim>\<open>li\<close>, inside a
  grid's filter bar, the bar being the one the grid's listener was added to: after all
  listeners of the click have run, the control has the class \<^verbatim>\<open>filter-active\<close>, no other
  control inside the bar has it, the grid's instance is still there, and its filter option
  is the control's \<^verbatim>\<open>data-filter\<close>: the visible items are then all items when that value
  is the wildcard, and otherwise exactly the items that match it. For a control inside a
  \<^verbatim>\<open>.portfolio-filters\<close> element the delegated listener on the body does the same with
  the first grid of the document: the control is active, no other such control is, and,
  when the page has a grid and Isotope is loaded, the instance of the first grid gets the
  control's filter value. A click whose target is an element inside a control, not the
  control itself, changes nothing.
\<close>

theorem filter_click_activates:
  "(t < length (lis p) \<and> (b, g) \<in> set (filter_listeners p) \<and>
    b \<in> set (li_ancestors (lis p ! t)) \<longrightarrow>
      is_filter_active (lis (click (Target_li t) p) ! t)
      \<and> (\<forall>j < length (lis p). j \<noteq> t \<and> b \<in> set (li_ancestors (lis p ! j)) \<longrightarrow>
            \<not> is_filter_active (lis (click (Target_li t) p) ! j))
      \<and> length (lis (click (Target_li t) p)) = length (lis p)
      \<and> map iso_element (isotopes (click (Target_li t) p)) = map iso_element (isotopes p)
      \<and> (\<forall>i \<in> set (isotopes (click (Target_li t) p)). iso_element i = g \<longrightarrow>
            iso_filter i = li_data_filter (lis p ! t) \<and>
            (\<forall>f. li_data_filter (lis p ! t) = Some f \<longrightarrow>
               visible_items matches items i
                 = Some (if f = ''*'' then items else filter (matches f) items))))
   \<and> (t < length (lis p) \<and> delegation_wired p \<and>
      portfolio_li (portfolio_filters p) (li_ancestors (lis p ! t)) \<longrightarrow>
      is_filter_active (lis (click (Target_li t) p) ! t)
      \<and> (\<forall>j < length (lis p).
            j \<noteq> t \<and> portfolio_li (portfolio_filters p) (li_ancestors (lis p ! j)) \<longrightarrow>
            \<not> is_filter_active (lis (click (Target_li t) p) ! j))
      \<and> (layouts p \<noteq> [] \<and> defined Isotope p \<longrightarrow>
           (\<forall>i \<in> set (isotopes (click (Target_li t) p)). iso_element i = 0 \<longrightarrow>
              iso_filter i = li_data_filter (lis p ! t) \<and>
              (\<forall>f. li_data_filter (lis p ! t) = Some f \<longrightarrow>
                 visible_items matches items i
                   = Some (if f = ''*'' then items else filter (matches f) items)))))
   \<and> click (Target_inside t) p = p"
proof (intro conjI impI)
  assume a: "t < length (lis p) \<and> (b, g) \<in> set (filter_listeners p) \<and>
    b \<in> set (li_ancestors (lis p ! t))"
  then have t: "t < length (lis p)" by simp
  note s = click_scope_bar[of b g p t] 
  have h: "click_handled t p" using a s(1) by simp
  have c: "click (Target_li t) p = click_effect t (click_scope t p) (click_grids t p) p"
    using t h by (simp add: click_li_effect)
  show "is_filter_active (lis (click (Target_li t) p) ! t)"
    using t by (simp add: c click_effect_target)
  show "\<forall>j < length (lis p). j \<noteq> t \<and> b \<in> set (li_ancestors (lis p ! j)) \<longrightarrow>
            \<not> is_filter_active (lis (click (Target_li t) p) ! j)"
    using a s(2) by (simp add: c click_effect_other)
  show "length (lis (click (Target_li t) p)) = length (lis p)"
    by (simp add: c)
  show "map iso_element (isotopes (click (Target_li t) p)) = map iso_element (isotopes p)"
    by (simp add: c click_effect_isotopes)
  show "\<forall>i \<in> set (isotopes (click (Target_li t) p)). iso_element i = g \<longrightarrow>
            iso_filter i = li_data_filter (lis p ! t) \<and>
            (\<forall>f. li_data_filter (lis p ! t) = Some f \<longrightarrow>
               visible_items matches items i
                 = Some (if f = ''*'' then items else filter (matches f) items))"
  proof (intro ballI impI)
    fix i assume i: "i \<in> set (isotopes (click (Target_li t) p))" "iso_element i = g"
    have f: "iso_filter i = li_data_filter (lis p ! t)"
      using i a s(3) click_effect_isotopes(2)[of i t "click_scope t p" "click_grids t p" p]
      by (simp add: c)
    show "iso_filter i = li_data_filter (lis p ! t) \<and>
            (\<forall>f. li_data_filter (lis p ! t) = Some f \<longrightarrow>
               visible_items matches items i
                 = Some (if f = ''*'' then items else filter (matches f) items))"
      using f by (simp add: visible_after)
  qed
next
  assume a: "t < length (lis p) \<and> delegation_wired p \<and>
      portfolio_li (portfolio_filters p) (li_ancestors (lis p ! t))"
  then have t: "t < length (lis p)" by simp
  note s = click_scope_body[of p t]
  have h: "click_handled t p" using a s(1) by simp
  have c: "click (Target_li t) p = click_effect t (click_scope t p) (click_grids t p) p"
    using t h by (simp add: click_li_effect)
  show "is_filter_active (lis (click (Target_li t) p) ! t)"
    using t by (simp add: c click_effect_target)
  show "\<forall>j < length (lis p).
            j \<noteq> t \<and> portfolio_li (portfolio_filters p) (li_ancestors (lis p ! j)) \<longrightarrow>
            \<not> is_filter_active (lis (click (Target_li t) p) ! j)"
    using a s(2) by (simp add: c click_effect_other)
  show "\<forall>i \<in> set (isotopes (click (Target_li t) p)). iso_element i = 0 \<longrightarrow>
              iso_filter i = li_data_filter (lis p ! t) \<and>
              (\<forall>f. li_data_filter (lis p ! t) = Some f \<longrightarrow>
                 visible_items matches items i
                   = Some (if f = ''*'' then items else filter (matches f) items))"
    if l: "layouts p \<noteq> [] \<and> defined Isotope p"
  proof (intro ballI impI)
    fix i assume i: "i \<in> set (isotopes (click (Target_li t) p))" "iso_element i = 0"
    have g0: "click_grids t p 0" using a l s(3) by simp
    have f: "iso_filter i = li_data_filter (lis p ! t)"
      using i g0 click_effect_isotopes(2)[of i t "click_scope t p" "click_grids t p" p]
      by (simp add: c)
    show "iso_filter i = li_data_filter (lis p ! t) \<and>
            (\<forall>f. li_data_filter (lis p ! t) = Some f \<longrightarrow>
               visible_items matches items i
                 = Some (if f = ''*'' then items else filter (matches f) items))"
      using f by (simp add: visible_after)
  qed
next
  show "click (Target_inside t) p = p"
    by (rule click_inside)
qed

theorem filter_click_activates_witness:
  "3 < length (lis (DOMContentLoaded portfolio_page))
   \<and> (2, 1) \<in> set (filter_listeners (DOMContentLoaded portfolio_page))
   \<and> 2 \<in> set (li_ancestors (lis (DOMContentLoaded portfolio_page) ! 3))
   \<and> 2 \<in> set (li_ancestors (lis (DOMContentLoaded portfolio_page) ! 2))
   \<and> delegation_wired (DOMContentLoaded portfolio_page)
   \<and> portfolio_li (portfolio_filters (DOMContentLoaded portfolio_page))
        (li_ancestors (lis (DOMContentLoaded portfolio_page) ! 3))
   \<and> portfolio_li (portfolio_filters (DOMContentLoaded portfolio_page))
        (li_ancestors (lis (DOMContentLoaded portfolio_page) ! 0))
   \<and> layouts (DOMContentLoaded portfolio_page) \<noteq> []
   \<and> defined Isotope (DOMContentLoaded portfolio_page)
   \<and> li_data_filter (lis (DOMContentLoaded portfolio_page) ! 3) = Some ''.filter-web''
   \<and> is_filter_active (lis (DOMContentLoaded portfolio_page) ! 2)
   \<and> is_filter_active (lis (DOMContentLoaded portfolio_page) ! 0)
   \<and> is_filter_active (lis (click (Target_li 3) (DOMContentLoaded portfolio_page)) ! 3)
   \<and> \<not> is_filter_active (lis (click (Target_li 3) (DOMContentLoaded portfolio_page)) ! 2)
   \<and> \<not> is_filter_active (lis (click (Target_li 3) (DOMContentLoaded portfolio_page)) ! 0)
   \<and> map iso_element (isotopes (click (Target_li 3) (DOMContentLoaded portfolio_page))) = [0, 1]
   \<and> iso_filter (isotopes (click (Target_li 3) (DOMContentLoaded portfolio_page)) ! 1)
       = Some ''.filter-web''
   \<and> visible_items (\<lambda>f item. item = f) [''.filter-app'', ''.filter-web'']
        (isotopes (click (Target_li 3) (DOMContentLoaded portfolio_page)) ! 1) = Some [''.filter-web'']
   \<and> iso_filter (isotopes (click (Target_li 3) (DOMContentLoaded portfolio_page)) ! 0)
       = Some ''.filter-web''
   \<and> click (Target_inside 3) (DOMContentLoaded portfolio_page) = DOMContentLoaded portfolio_page"
proof -
  let ?P = "DOMContentLoaded portfolio_page"
  note T = filter_click_activates[of 3 ?P 2 1 "\<lambda>f item. item = f"
      "[''.filter-app'', ''.filter-web'']"]
  have l: "lis ?P =
        [\<lparr>li_classes = [''filter-active''], li_data_filter = Some ''*'', li_ancestors = [1]\<rparr>,
         \<lparr>li_classes = [], li_data_filter = Some ''.filter-app'', li_ancestors = [1]\<rparr>,
         \<lparr>li_classes = [''filter-active''], li_data_filter = Some ''*'', li_ancestors = [2]\<rparr>,
         \<lparr>li_classes = [], li_data_filter = Some ''.filter-web'', li_ancestors = [2]\<rparr>]"
    by (simp add: ready_page_fields) (simp add: portfolio_page_def)
  have n: "3 < length (lis ?P)" "2 < length (lis ?P)" "0 < length (lis ?P)"
    by (simp_all add: l)
  have a: "3 < length (lis ?P) \<and> (2, 1) \<in> set (filter_listeners ?P)
      \<and> 2 \<in> set (li_ancestors (lis ?P ! 3))"
    by (simp add: l ready_page_fields)
  have a2: "2 \<in> set (li_ancestors (lis ?P ! 2))"
    by (simp add: l)
  have b: "3 < length (lis ?P) \<and> delegation_wired ?P
      \<and> portfolio_li (portfolio_filters ?P) (li_ancestors (lis ?P ! 3))"
    and b0: "portfolio_li (portfolio_filters ?P) (li_ancestors (lis ?P ! 0))"
    by (simp_all add: l ready_page_fields portfolio_li_def)
  have g: "layouts ?P \<noteq> [] \<and> defined Isotope ?P"
    by (simp add: ready_page_fields defined_def) (simp add: portfolio_page_def)
  have f: "li_data_filter (lis ?P ! 3) = Some ''.filter-web''"
    and o: "is_filter_active (lis ?P ! 2)" "is_filter_active (lis ?P ! 0)"
    by (simp_all add: l is_filter_active_def classList_contains_def)
  have c3: "is_filter_active (lis (click (Target_li 3) ?P) ! 3)"
    using T a by blast
  have "\<forall>j < length (lis ?P). j \<noteq> 3 \<and> 2 \<in> set (li_ancestors (lis ?P ! j)) \<longrightarrow>
            \<not> is_filter_active (lis (click (Target_li 3) ?P) ! j)"
    using T a by blast
  then have c2: "\<not> is_filter_active (lis (click (Target_li 3) ?P) ! 2)"
    using n(2) a2 by simp
  have "\<forall>j < length (lis ?P).
            j \<noteq> 3 \<and> portfolio_li (portfolio_filters ?P) (li_ancestors (lis ?P ! j)) \<longrightarrow>
            \<not> is_filter_active (lis (click (Target_li 3) ?P) ! j)"
    using T b by blast
  then have c0: "\<not> is_filter_active (lis (click (Target_li 3) ?P) ! 0)"
    using n(3) b0 by simp
  have "map iso_element (isotopes (click (Target_li 3) ?P)) = map iso_element (isotopes ?P)"
    using T a by blast
  then have e: "map iso_element (isotopes (click (Target_li 3) ?P)) = [0, 1]"
    by (simp add: ready_page_fields)
  have len: "length (isotopes (click (Target_li 3) ?P)) = 2"
    using arg_cong[OF e, of length] by simp
  have el: "iso_element (isotopes (click (Target_li 3) ?P) ! 1) = 1"
    "iso_element (isotopes (click (Target_li 3) ?P) ! 0) = 0"
    using arg_cong[OF e, of "\<lambda>xs. xs ! 1"] arg_cong[OF e, of "\<lambda>xs. xs ! 0"] len
    by simp_all
  have m: "isotopes (click (Target_li 3) ?P) ! 1 \<in> set (isotopes (click (Target_li 3) ?P))"
    "isotopes (click (Target_li 3) ?P) ! 0 \<in> set (isotopes (click (Target_li 3) ?P))"
    using len by simp_all
  have "\<forall>i \<in> set (isotopes (click (Target_li 3) ?P)). iso_element i = 1 \<longrightarrow>
            iso_filter i = li_data_filter (lis ?P ! 3) \<and>
            (\<forall>f. li_data_filter (lis ?P ! 3) = Some f \<longrightarrow>
               visible_items (\<lambda>f item. item = f) [''.filter-app'', ''.filter-web''] i
                 = Some (if f = ''*'' then [''.filter-app'', ''.filter-web'']
                         else filter (\<lambda>item. item = f) [''.filter-app'', ''.filter-web'']))"
    using T a by blast
  then have i1: "iso_filter (isotopes (click (Target_li 3) ?P) ! 1) = Some ''.filter-web''"
    and v1: "visible_items (\<lambda>f item. item = f) [''.filter-app'', ''.filter-web'']
        (isotopes (click (Target_li 3) ?P) ! 1) = Some [''.filter-web'']"
    using m(1) el(1) f by simp_all
  have "\<forall>i \<in> set (isotopes (click (Target_li 3) ?P)). iso_element i = 0 \<longrightarrow>
              iso_filter i = li_data_filter (lis ?P ! 3) \<and>
              (\<forall>f. li_data_filter (lis ?P ! 3) = Some f \<longrightarrow>
                 visible_items (\<lambda>f item. item = f) [''.filter-app'', ''.filter-web''] i
                 = Some (if f = ''*'' then [''.filter-app'', ''.filter-web'']
                         else filter (\<lambda>item. item = f) [''.filter-app'', ''.filter-web'']))"
    using T b g by blast
  then have i0: "iso_filter (isotopes (click (Target_li 3) ?P) ! 0) = Some ''.filter-web''"
    using m(2) el(2) f by simp
  have ins: "click (Target_inside 3) ?P = ?P"
    using T by blast
  show ?thesis
    using a a2 b b0 g f o c3 c2 c0 e i1 v1 i0 ins by blast
qed

text \<open>
  On the page above, once the ready handler has run: a click on an element inside the
  fourth control, which is in the filter bar of the second grid. The control does not get
  the active class, the control of the bar that had it keeps it, and the grid's filter is
  still the wildcard, not the control's value.
\<close>

theorem filter_click_inside_counterexample:
  "3 < length (lis (DOMContentLoaded portfolio_page))
   \<and> (2, 1) \<in> set (filter_listeners (DOMContentLoaded portfolio_page))
   \<and> 2 \<in> set (li_ancestors (lis (DOMContentLoaded portfolio_page) ! 3))
   \<and> 2 \<in> set (li_ancestors (lis (DOMContentLoaded portfolio_page) ! 2))
   \<and> li_data_filter (lis (DOMContentLoaded portfolio_page) ! 3) = Some ''.filter-web''
   \<and> \<not> is_filter_active (lis (click (Target_inside 3) (DOMContentLoaded portfolio_page)) ! 3)
   \<and> is_filter_active (lis (click (Target_inside 3) (DOMContentLoaded portfolio_page)) ! 2)
   \<and> map iso_element (isotopes (click (Target_inside 3) (DOMContentLoaded portfolio_page)))
       = [0, 1]
   \<and> map iso_filter (isotopes (click (Target_inside 3) (DOMContentLoaded portfolio_page)))
       = [Some ''.filter-app'', Some ''*'']"
proof -
  have l: "lis (DOMContentLoaded portfolio_page) =
        [\<lparr>li_classes = [''filter-active''], li_data_filter = Some ''*'', li_ancestors = [1]\<rparr>,
         \<lparr>li_classes = [], li_data_filter = Some ''.filter-app'', li_ancestors = [1]\<rparr>,
         \<lparr>li_classes = [''filter-active''], li_data_filter = Some ''*'', li_ancestors = [2]\<rparr>,
         \<lparr>li_classes = [], li_data_filter = Some ''.filter-web'', li_ancestors = [2]\<rparr>]"
    by (simp add: ready_page_fields) (simp add: portfolio_page_def)
  show ?thesis
    by (simp add: click_inside l ready_page_fields is_filter_active_def classList_contains_def)
qed

section \<open>Running a handler twice: results\<close>

lemma handleScroll_body_idem: "handleScroll_body (handleScroll_body v) = handleScroll_body v"
  by (cases "scrollTopButton v")
     (simp_all add: handleScroll_body_def Let_def recorded_scrollTop_def)

lemma mark_links_idem:
  "mark_links cur (fst (mark_links cur ls)) = mark_links cur ls"
proof (induction ls)
  case Nil
  then show ?case by simp
next
  case (Cons l ls)
  show ?case
  proof (cases "href l")
    case None
    then show ?thesis by simp
  next
    case (Some h)
    obtain ls' e where r: "mark_links cur ls = (ls', e)" by (cases "mark_links cur ls")
    have ih: "mark_links cur ls' = (ls', e)" using Cons.IH r by simp
    show ?thesis
      using Some r ih by (simp add: Let_def)
  qed
qed

lemma activateNavmenuLink_idem:
  "activateNavmenuLink y ss (fst (activateNavmenuLink y ss ls)) = activateNavmenuLink y ss ls"
  by (simp add: activateNavmenuLink_def mark_links_idem)

lemma bubbling_click_effect:
  "t < length (lis p) \<Longrightarrow> bubbling t (click_effect t S G p) = bubbling t p"
  by (simp add: bubbling_def click_effect_ancestors)

lemma click_li_idem: "click (Target_li t) (click (Target_li t) p) = click (Target_li t) p"
proof (cases "t < length (lis p) \<and> click_handled t p")
  case False
  then have "click (Target_li t) p = p" by (subst click_li_effect) auto
  then show ?thesis by simp
next
  case True
  then have t: "t < length (lis p)" and h: "click_handled t p" by simp_all
  let ?S = "click_scope t p" and ?G = "click_grids t p"
  let ?q = "click_effect t ?S ?G p"
  have c: "click (Target_li t) p = ?q" using True by (simp add: click_li_effect)
  have tq: "t < length (lis ?q)" using t by simp
  have b: "bubbling t ?q = bubbling t p" using t by (rule bubbling_click_effect)
  have a: "li_ancestors (lis ?q ! t) = li_ancestors (lis p ! t)"
    using t by (rule click_effect_ancestors)
  have hq: "click_handled t ?q" using h by (simp add: click_handled_def b a)
  have sq: "click_scope t ?q = ?S" by (rule ext) (simp add: click_scope_def b a)
  have gq: "click_grids t ?q = ?G" by (rule ext) (simp add: click_grids_def b a defined_def)
  have "click (Target_li t) ?q = click_effect t ?S ?G ?q"
    using tq hq by (simp add: click_li_effect sq gq)
  also have "\<dots> = click_effect t (\<lambda>as. ?S as \<or> ?S as) (\<lambda>e. ?G e \<or> ?G e) p"
    by (rule click_effect_twice[OF t])
  also have "\<dots> = ?q" by simp
  finally show ?thesis by (simp add: c)
qed

lemma toggle_contains:
  "classList_contains d (classList_toggle c cs) = (if d = c then \<not> classList_contains c cs
     else classList_contains d cs)"
  by (auto simp add: classList_toggle_def classList_contains_def classList_remove_def)

lemma headerToggle_click_fields:
  assumes "header_wired p" and "header p = Some h" and "headerToggle p = Some tg"
  shows "header (headerToggle_click p) = Some (classList_toggle ''header-show'' h)"
    and "headerToggle (headerToggle_click p)
           = Some (classList_toggle ''bi-x'' (classList_toggle ''bi-list'' tg))"
    and "header_wired (headerToggle_click p)"
  using assms by (simp_all add: headerToggle_click_def)

lemma ready_page_toggle:
  "header (headerToggle_click (DOMContentLoaded portfolio_page)) = Some [''header-show'']"
  "headerToggle (headerToggle_click (DOMContentLoaded portfolio_page)) = Some [''bi-x'']"
  "header (headerToggle_click (headerToggle_click (DOMContentLoaded portfolio_page))) = Some []"
  "headerToggle (headerToggle_click (headerToggle_click (DOMContentLoaded portfolio_page)))
     = Some [''bi-list'']"
proof -
  let ?P = "DOMContentLoaded portfolio_page"
  note f = headerToggle_click_fields[OF portfolio_page_ready(3) ready_page_fields(8)
      ready_page_fields(9)]
  show 1: "header (headerToggle_click ?P) = Some [''header-show'']"
    and 2: "headerToggle (headerToggle_click ?P) = Some [''bi-x'']"
    by (simp_all add: f classList_toggle_def classList_remove_def)
  note g = headerToggle_click_fields[OF f(3) 1 2]
  show "header (headerToggle_click (headerToggle_click ?P)) = Some []"
    and "headerToggle (headerToggle_click (headerToggle_click ?P)) = Some [''bi-list'']"
    by (simp_all add: g classList_toggle_def classList_remove_def)
qed

lemma click_idem: "click target (click target p) = click target p"
  by (cases target) (simp_all add: click_li_idem click_inside)

text \<open>
  C9 (as amended). The scroll-to-top toggle, the navigation highlighter and the filter
  activation are idempotent: run twice in succession they leave the page as one run does
  (for the highlighter also when a link without \<^verbatim>\<open>href\<close> stops it, and for a click with
  all its listeners, whatever its target). The header toggle is not. When it is wired,
  each run flips \<^verbatim>\<open>header-show\<close> on the header and \<^verbatim>\<open>bi-list\<close> and \<^verbatim>\<open>bi-x\<close> on the toggle,
  each of the three present after the run exactly when it was absent before, and leaves
  every other class as it was; so one run changes the page, a second run changes it again,
  and after the second run the header and the toggle have exactly the classes they had
  before the first. When it is not wired, a click on the toggle changes nothing.
\<close>

theorem handlers_idempotent_toggle_involutive:
  "handleScroll_body (handleScroll_body v) = handleScroll_body v
   \<and> activateNavmenuLink y ss (fst (activateNavmenuLink y ss links))
       = activateNavmenuLink y ss links
   \<and> click target (click target p) = click target p
   \<and> (header_wired p \<and> header p = Some h \<and> headerToggle p = Some tg \<longrightarrow>
        (\<exists>h1 tg1.
           header (headerToggle_click p) = Some h1 \<and>
           headerToggle (headerToggle_click p) = Some tg1 \<and>
           (\<forall>c. classList_contains c h1 =
                  (if c = ''header-show'' then \<not> classList_contains c h
                   else classList_contains c h)) \<and>
           (\<forall>c. classList_contains c tg1 =
                  (if c = ''bi-list'' \<or> c = ''bi-x'' then \<not> classList_contains c tg
                   else classList_contains c tg)))
        \<and> header_wired (headerToggle_click p)
        \<and> (\<exists>h2 tg2.
           header (headerToggle_click (headerToggle_click p)) = Some h2 \<and>
           headerToggle (headerToggle_click (headerToggle_click p)) = Some tg2 \<and>
           (\<forall>c. classList_contains c h2 = classList_contains c h) \<and>
           (\<forall>c. classList_contains c tg2 = classList_contains c tg))
        \<and> headerToggle_click p \<noteq> p
        \<and> headerToggle_click (headerToggle_click p) \<noteq> headerToggle_click p)
   \<and> (\<not> header_wired p \<longrightarrow> headerToggle_click p = p)"
proof (intro conjI impI)
  show "handleScroll_body (handleScroll_body v) = handleScroll_body v"
    by (rule handleScroll_body_idem)
  show "activateNavmenuLink y ss (fst (activateNavmenuLink y ss links))
       = activateNavmenuLink y ss links"
    by (rule activateNavmenuLink_idem)
  show "click target (click target p) = click target p"
    by (rule click_idem)
next
  assume a: "header_wired p \<and> header p = Some h \<and> headerToggle p = Some tg"
  let ?q = "headerToggle_click p"
  note f = headerToggle_click_fields[of p h tg]
  have q: "header_wired ?q" "header ?q = Some (classList_toggle ''header-show'' h)"
    "headerToggle ?q = Some (classList_toggle ''bi-x'' (classList_toggle ''bi-list'' tg))"
    using a f by simp_all
  note g = headerToggle_click_fields[OF q]
  show "\<exists>h1 tg1.
           header ?q = Some h1 \<and>
           headerToggle ?q = Some tg1 \<and>
           (\<forall>c. classList_contains c h1 =
                  (if c = ''header-show'' then \<not> classList_contains c h
                   else classList_contains c h)) \<and>
           (\<forall>c. classList_contains c tg1 =
                  (if c = ''bi-list'' \<or> c = ''bi-x'' then \<not> classList_contains c tg
                   else classList_contains c tg))"
    by (simp add: q toggle_contains)
  show "header_wired ?q"
    by (rule q)
  show "\<exists>h2 tg2.
           header (headerToggle_click ?q) = Some h2 \<and>
           headerToggle (headerToggle_click ?q) = Some tg2 \<and>
           (\<forall>c. classList_contains c h2 = classList_contains c h) \<and>
           (\<forall>c. classList_contains c tg2 = classList_contains c tg)"
    by (simp add: g toggle_contains)
  have n1: "classList_contains ''header-show'' (classList_toggle ''header-show'' h)
              \<noteq> classList_contains ''header-show'' h"
    by (simp add: toggle_contains)
  show "?q \<noteq> p"
  proof
    assume "?q = p"
    then have "header ?q = header p" by simp
    then show False using q(2) a n1 by simp
  qed
  have n2: "classList_contains ''header-show''
              (classList_toggle ''header-show'' (classList_toggle ''header-show'' h))
              \<noteq> classList_contains ''header-show'' (classList_toggle ''header-show'' h)"
    by (simp add: toggle_contains)
  show "headerToggle_click ?q \<noteq> ?q"
  proof
    assume "headerToggle_click ?q = ?q"
    then have "header (headerToggle_click ?q) = header ?q" by simp
    then show False using q(2) g(1) n2 by simp
  qed
next
  assume "\<not> header_wired p"
  then show "headerToggle_click p = p"
    by (simp add: headerToggle_click_def)
qed

theorem handlers_idempotent_toggle_involutive_witness:
  "header_wired (DOMContentLoaded portfolio_page)
   \<and> header (DOMContentLoaded portfolio_page) = Some []
   \<and> headerToggle (DOMContentLoaded portfolio_page) = Some [''bi-list'']
   \<and> header (headerToggle_click (DOMContentLoaded portfolio_page)) = Some [''header-show'']
   \<and> headerToggle (headerToggle_click (DOMContentLoaded portfolio_page)) = Some [''bi-x'']
   \<and> header (headerToggle_click (headerToggle_click (DOMContentLoaded portfolio_page)))
       = Some []
   \<and> headerToggle (headerToggle_click (headerToggle_click (DOMContentLoaded portfolio_page)))
       = Some [''bi-list'']
   \<and> headerToggle_click (DOMContentLoaded portfolio_page) \<noteq> DOMContentLoaded portfolio_page
   \<and> click (Target_li 3) (click (Target_li 3) (DOMContentLoaded portfolio_page))
       = click (Target_li 3) (DOMContentLoaded portfolio_page)
   \<and> \<not> header_wired portfolio_page
   \<and> headerToggle_click portfolio_page = portfolio_page"
proof -
  note T = handlers_idempotent_toggle_involutive[of _ _ _ _ "Target_li 3"
      "DOMContentLoaded portfolio_page" "[]" "[''bi-list'']"]
  note U = handlers_idempotent_toggle_involutive[of _ _ _ _ "Target_li 3" portfolio_page]
  have a: "header_wired (DOMContentLoaded portfolio_page)
      \<and> header (DOMContentLoaded portfolio_page) = Some []
      \<and> headerToggle (DOMContentLoaded portfolio_page) = Some [''bi-list'']"
    by (simp add: portfolio_page_ready ready_page_fields)
  have b: "headerToggle_click (DOMContentLoaded portfolio_page) \<noteq> DOMContentLoaded portfolio_page"
    using T a by blast
  have c: "click (Target_li 3) (click (Target_li 3) (DOMContentLoaded portfolio_page))
       = click (Target_li 3) (DOMContentLoaded portfolio_page)"
    using T by blast
  have u: "\<not> header_wired portfolio_page"
    by (simp add: portfolio_page_def)
  have d: "headerToggle_click portfolio_page = portfolio_page"
    using U u by blast
  show ?thesis
    using a b c u d ready_page_toggle by blast
qed

text \<open>
  The header toggle on the page above, once the ready handler has wired it: after one
  click the header has the class \<^verbatim>\<open>header-show\<close>, after two it has not.
\<close>

theorem header_toggle_not_idempotent_counterexample:
  "header_wired (DOMContentLoaded portfolio_page)
   \<and> header (headerToggle_click (DOMContentLoaded portfolio_page)) = Some [''header-show'']
   \<and> header (headerToggle_click (headerToggle_click (DOMContentLoaded portfolio_page)))
       = Some []"
  by (simp add: portfolio_page_ready ready_page_toggle)

end
